theory Spec2Isabelle
  imports Main
begin

section \<open>The thread actor proxy of \<^verbatim>\<open>src/firefox/actorProxy/thread.ts\<close>\<close>

text \<open>
  \<^verbatim>\<open>ThreadActorProxy\<close> keeps a handful of private fields and talks to the outside
  through four channels: requests handed to \<^verbatim>\<open>connection.sendRequest\<close>, calls of the
  logger, the \<^verbatim>\<open>resolve\<close>/\<^verbatim>\<open>reject\<close> functions of promises, and events given to
  \<^verbatim>\<open>emit\<close>. The model is a record of the fields, and every method is a function from
  the record to the record. What a method does on the four channels is appended, in
  program order, to the field \<open>trace\<close>.
\<close>

subsection \<open>Values\<close>

text \<open>
  \<^verbatim>\<open>desiredState\<close> is a string in the source; its declaration lists the five values
  it takes and no assignment stores any other.
\<close>

datatype desired = Paused | Running | StepOver | StepInto | StepOut

text \<open>
  A promise made by \<^verbatim>\<open>new Promise\<close> (or \<^verbatim>\<open>Promise.reject\<close>) is named by a number.
  The pair of functions \<^verbatim>\<open>resolve\<close>, \<^verbatim>\<open>reject\<close> of a \<^verbatim>\<open>PendingRequest\<close> belongs
  to one promise, so the pair is modelled by the promise's name.
\<close>

type_synonym promise = nat

type_synonym grip = string

type_synonym frame = string

text \<open>A \<^verbatim>\<open>FirefoxDebugProtocol.Source\<close>, of which the code reads \<^verbatim>\<open>url\<close> and \<^verbatim>\<open>actor\<close>.\<close>

record source =
  url :: string
  actor :: string

text \<open>The \<^verbatim>\<open>resumeLimit\<close> objects \<^verbatim>\<open>{ type: 'next' }\<close>, \<^verbatim>\<open>{ type: 'step' }\<close>, \<^verbatim>\<open>{ type: 'finish' }\<close>.\<close>

datatype resumeLimit = Next | Step | Finish

text \<open>
  The objects passed to \<^verbatim>\<open>sendRequest\<close>, by their \<^verbatim>\<open>type\<close>. The field \<^verbatim>\<open>to\<close> is the
  first argument of \<open>SendRequest\<close> below.
\<close>

datatype request =
    Attach
  | Sources
  | InterruptRequest
  | ResumeRequest "resumeLimit option"
  | Frames
  | ClientEvaluate string string

datatype level = Debug | Warn | Error

datatype event =
    PausedEvent string
  | ExitedEvent
  | WrongStateEvent
  | NewSourceEvent string

datatype effect =
    Register
  | SendRequest string request
  | Log level
  | ResolveFrames promise "frame list"
  | RejectFrames promise string
  | ResolveGrip promise grip
  | RejectGrip promise string
  | RunOperation promise
  | GetOrCreate string
  | Emit event

text \<open>
  \<^verbatim>\<open>QueuedRequest\<close>. Its \<^verbatim>\<open>send\<close> is a closure that \<^verbatim>\<open>evaluate\<close> builds over
  its two arguments, kept here as \<open>qexpr\<close> and \<open>qframe\<close>; \<open>send\<close> gives the request the
  closure passes to \<^verbatim>\<open>sendRequest\<close>. \<open>settle\<close> is the promise of its \<^verbatim>\<open>resolve\<close> and
  \<^verbatim>\<open>reject\<close>.
\<close>

record QueuedRequest =
  qexpr :: string
  qframe :: string
  settle :: promise

definition send :: "QueuedRequest \<Rightarrow> request" where
  "send q = ClientEvaluate (qexpr q) (qframe q)"

text \<open>
  An inbound \<^verbatim>\<open>FirefoxDebugProtocol.Response\<close>. The handler reads \<^verbatim>\<open>type\<close>, \<^verbatim>\<open>why\<close>,
  \<^verbatim>\<open>source\<close>, \<^verbatim>\<open>sources\<close>, \<^verbatim>\<open>frames\<close> and \<^verbatim>\<open>error\<close>. A field it tests for presence or
  compares is optional here; \<^verbatim>\<open>why\<close> and \<^verbatim>\<open>source\<close> are read through a type cast that
  promises them, so they are plain fields.
\<close>

record why =
  wtype :: string
  frameFinished_return :: grip

record response =
  rtype :: "string option"
  rwhy :: why
  rsource :: source
  rsources :: "source list option"
  rframes :: "frame list option"
  rerror :: "string option"

subsection \<open>The request correlator\<close>

text \<open>
  Modelled from the spec: the class \<^verbatim>\<open>PendingRequests\<close> of
  \<^verbatim>\<open>src/firefox/actorProxy/pendingRequests.ts\<close> is imported by \<^verbatim>\<open>thread.ts\<close> and is
  not among the sources. The spec calls it a FIFO queue of outstanding continuations:
  a request is enqueued at the end, one response resolves the oldest entry, and on exit
  every outstanding continuation is rejected (after which none is outstanding). The spec
  does not say what a response does when nothing is outstanding; the model leaves the
  queue as it is.
\<close>

type_synonym PendingRequests = "promise list"

definition enqueue :: "promise \<Rightarrow> PendingRequests \<Rightarrow> PendingRequests" where
  "enqueue p q = q @ [p]"

definition resolveOne :: "frame list \<Rightarrow> PendingRequests \<Rightarrow> effect list \<times> PendingRequests" where
  "resolveOne fs q = (case q of [] \<Rightarrow> ([], []) | p # rest \<Rightarrow> ([ResolveFrames p fs], rest))"

definition rejectAll :: "string \<Rightarrow> PendingRequests \<Rightarrow> effect list \<times> PendingRequests" where
  "rejectAll err q = (map (\<lambda>p. RejectFrames p err) q, [])"

subsection \<open>The fields\<close>

text \<open>
  \<open>nextPromise\<close> counts the promises created so far, so that each \<^verbatim>\<open>new Promise\<close>
  gets a name no earlier promise has. \<open>trace\<close> is the record of effects, oldest first.
\<close>

record thread =
  name :: string
  desiredState :: desired
  paused :: bool
  operationsRunningOnPausedThread :: int
  pendingFrameRequests :: PendingRequests
  queuedEvaluateRequests :: "QueuedRequest list"
  pendingEvaluateRequest :: "promise option"
  nextPromise :: promise
  trace :: "effect list"

definition perform :: "effect \<Rightarrow> thread \<Rightarrow> thread" where
  "perform e s = s\<lparr>trace := trace s @ [e]\<rparr>"

definition performAll :: "effect list \<Rightarrow> thread \<Rightarrow> thread" where
  "performAll es s = s\<lparr>trace := trace s @ es\<rparr>"

text \<open>The constructor: registers, requests \<^verbatim>\<open>attach\<close> and \<^verbatim>\<open>sources\<close>, logs.\<close>

definition ThreadActorProxy :: "string \<Rightarrow> thread" where
  "ThreadActorProxy nm =
     \<lparr>name = nm, desiredState = Paused, paused = True,
      operationsRunningOnPausedThread = 0, pendingFrameRequests = [],
      queuedEvaluateRequests = [], pendingEvaluateRequest = None, nextPromise = 0,
      trace = [Register, SendRequest nm Attach, SendRequest nm Sources, Log Debug]\<rparr>"

subsection \<open>The methods\<close>

definition sendPauseRequest :: "thread \<Rightarrow> thread" where
  "sendPauseRequest s =
     (let s = perform (Log Debug) s;
          s = perform (SendRequest (name s) InterruptRequest) s
      in s\<lparr>paused := True\<rparr>)"

text \<open>
  \<^verbatim>\<open>doNext\<close>. In the branch that takes a request off the queue the guard has already
  found the queue non-empty, so the first case of the \<open>case\<close> is never taken. The branch
  that rejects the queued requests calls \<^verbatim>\<open>reject\<close> of each and assigns no field.
\<close>

definition doNext :: "thread \<Rightarrow> thread" where
  "doNext s =
     (if operationsRunningOnPausedThread s > 0 then
        (if \<not> paused s then perform (Log Error) s else s)
      else if pendingEvaluateRequest s \<noteq> None then
        (if paused s then
           (perform (SendRequest (name s) (ResumeRequest None)) s)\<lparr>paused := False\<rparr>
         else s)
      else if length (queuedEvaluateRequests s) > 0 then
        (if paused s then
           (case queuedEvaluateRequests s of
              [] \<Rightarrow> s
            | queuedEvaluateRequest # rest \<Rightarrow>
                (let s = s\<lparr>queuedEvaluateRequests := rest\<rparr>;
                     s = s\<lparr>pendingEvaluateRequest := Some (settle queuedEvaluateRequest)\<rparr>;
                     s = perform (SendRequest (name s) (send queuedEvaluateRequest)) s
                 in s\<lparr>paused := False\<rparr>))
         else
           (let s = perform (Log Warn) s
            in performAll
                 (map (\<lambda>queuedEvaluateRequest.
                         RejectGrip (settle queuedEvaluateRequest) ''Thread is running'')
                    (queuedEvaluateRequests s)) s))
      else
        (case desiredState s of
           Paused \<Rightarrow> (if \<not> paused s then sendPauseRequest s else s)
         | Running \<Rightarrow>
             (if paused s then
                (perform (SendRequest (name s) (ResumeRequest None)) s)\<lparr>paused := False\<rparr>
              else s)
         | StepOver \<Rightarrow>
             (if paused s then
                (perform (SendRequest (name s) (ResumeRequest (Some Next))) s)\<lparr>paused := False\<rparr>
              else s)
         | StepInto \<Rightarrow>
             (if paused s then
                (perform (SendRequest (name s) (ResumeRequest (Some Step))) s)\<lparr>paused := False\<rparr>
              else s)
         | StepOut \<Rightarrow>
             (if paused s then
                (perform (SendRequest (name s) (ResumeRequest (Some Finish))) s)\<lparr>paused := False\<rparr>
              else s)))"

text \<open>
  \<^verbatim>\<open>runOnPausedThread\<close>. The operation it is given is code of the caller: whatever that
  code does to the proxy it does through the public methods and the completion callback,
  which are further steps of a run (see \<open>action\<close> below). \<open>RunOperation p\<close> records that
  the operation was called and that promise \<open>p\<close> was resolved with what it returned.
\<close>

definition runOnPausedThread :: "thread \<Rightarrow> thread" where
  "runOnPausedThread s =
     (let s = perform (Log Debug) s;
          s = s\<lparr>operationsRunningOnPausedThread := operationsRunningOnPausedThread s + 1\<rparr>;
          p = nextPromise s;
          s = s\<lparr>nextPromise := p + 1\<rparr>;
          s = (if \<not> paused s then sendPauseRequest s else s)
      in perform (RunOperation p) s)"

definition operationFinishedOnPausedThread :: "thread \<Rightarrow> thread" where
  "operationFinishedOnPausedThread s =
     (let s = perform (Log Debug) s;
          s = s\<lparr>operationsRunningOnPausedThread := operationsRunningOnPausedThread s - 1\<rparr>
      in doNext s)"

definition interrupt :: "thread \<Rightarrow> thread" where
  "interrupt s =
     (let s = perform (Log Debug) s;
          s = s\<lparr>desiredState := Paused\<rparr>
      in if \<not> paused s then sendPauseRequest s else s)"

definition fetchStackFrames :: "thread \<Rightarrow> thread" where
  "fetchStackFrames s =
     (if desiredState s \<noteq> Paused then
        (let s = perform (Log Warn) s;
             p = nextPromise s;
             s = s\<lparr>nextPromise := p + 1\<rparr>
         in perform (RejectFrames p ''not paused'') s)
      else
        (let s = perform (Log Debug) s;
             p = nextPromise s;
             s = s\<lparr>nextPromise := p + 1\<rparr>
         in if paused s then
              (let s = s\<lparr>pendingFrameRequests := enqueue p (pendingFrameRequests s)\<rparr>
               in perform (SendRequest (name s) Frames) s)
            else
              (let s = perform (Log Warn) s
               in perform (RejectFrames p ''not paused'') s)))"

definition resume :: "thread \<Rightarrow> thread" where
  "resume s =
     (if desiredState s \<noteq> Paused then perform (Log Warn) s
      else
        (let s = perform (Log Debug) s;
             s = s\<lparr>desiredState := Running\<rparr>
         in doNext s))"

definition stepOver :: "thread \<Rightarrow> thread" where
  "stepOver s =
     (if desiredState s \<noteq> Paused then perform (Log Warn) s
      else
        (let s = perform (Log Debug) s;
             s = s\<lparr>desiredState := StepOver\<rparr>
         in doNext s))"

definition stepInto :: "thread \<Rightarrow> thread" where
  "stepInto s =
     (if desiredState s \<noteq> Paused then perform (Log Warn) s
      else
        (let s = perform (Log Debug) s;
             s = s\<lparr>desiredState := StepInto\<rparr>
         in doNext s))"

definition stepOut :: "thread \<Rightarrow> thread" where
  "stepOut s =
     (if desiredState s \<noteq> Paused then perform (Log Warn) s
      else
        (let s = perform (Log Debug) s;
             s = s\<lparr>desiredState := StepOut\<rparr>
         in doNext s))"

definition evaluate :: "string \<Rightarrow> string \<Rightarrow> thread \<Rightarrow> thread" where
  "evaluate expr frameActorName s =
     (if desiredState s \<noteq> Paused then
        (let s = perform (Log Warn) s;
             p = nextPromise s;
             s = s\<lparr>nextPromise := p + 1\<rparr>
         in perform (RejectGrip p ''not paused'') s)
      else
        (let p = nextPromise s;
             s = s\<lparr>nextPromise := p + 1\<rparr>;
             s = s\<lparr>queuedEvaluateRequests :=
                     queuedEvaluateRequests s
                       @ [\<lparr>qexpr = expr, qframe = frameActorName, settle = p\<rparr>]\<rparr>
         in doNext s))"

text \<open>
  \<^verbatim>\<open>receiveResponse\<close>. Calling \<^verbatim>\<open>resolve\<close> on \<^verbatim>\<open>pendingEvaluateRequest\<close> when that field
  is \<^verbatim>\<open>null\<close> throws a \<^verbatim>\<open>TypeError\<close>: the result is then \<open>Inl\<close>, with the fields as the
  statements before the throw left them.
\<close>

datatype exn = TypeError

definition receiveResponse :: "response \<Rightarrow> thread \<Rightarrow> (exn \<times> thread) + thread" where
  "receiveResponse r s =
     (if rtype r = Some ''paused'' then
        (let s = perform (Log Debug) s;
             w = wtype (rwhy r)
         in if w = ''attached'' then Inr (perform (Log Debug) s)
            else if w = ''interrupted'' then
              (let s = perform (Log Debug) s;
                   s = s\<lparr>paused := True\<rparr>
               in Inr (if desiredState s = Paused then perform (Emit (PausedEvent w)) s else s))
            else if w = ''resumeLimit'' then
              (let s = perform (Log Debug) s;
                   s = s\<lparr>paused := True\<rparr>;
                   s = s\<lparr>desiredState := Paused\<rparr>;
                   s = doNext s
               in Inr (perform (Emit (PausedEvent w)) s))
            else if w = ''breakpoint'' then
              (let s = perform (Log Debug) s;
                   s = s\<lparr>paused := True\<rparr>;
                   s = s\<lparr>desiredState := Paused\<rparr>;
                   s = doNext s
               in Inr (perform (Emit (PausedEvent w)) s))
            else if w = ''clientEvaluated'' then
              (let s = perform (Log Debug) s;
                   s = s\<lparr>paused := True\<rparr>
               in case pendingEvaluateRequest s of
                    None \<Rightarrow> Inl (TypeError, s)
                  | Some p \<Rightarrow>
                      (let s = perform (ResolveGrip p (frameFinished_return (rwhy r))) s;
                           s = s\<lparr>pendingEvaluateRequest := None\<rparr>;
                           s = doNext s
                       in Inr (if paused s then perform (Emit (PausedEvent w)) s else s)))
            else if w = ''debuggerStatement'' \<or> w = ''watchpoint'' \<or> w = ''pauseOnDOMEvents''
              then Inr (perform (Log Error) s)
            else Inr s)
      else if rtype r = Some ''resumed'' then Inr (perform (Log Debug) s)
      else if rtype r = Some ''newSource'' then
        (let s = perform (Log Debug) s;
             s = perform (GetOrCreate (actor (rsource r))) s
         in Inr (perform (Emit (NewSourceEvent (actor (rsource r)))) s))
      else if rsources r \<noteq> None then Inr (perform (Log Debug) s)
      else if rframes r \<noteq> None then
        (let s = perform (Log Debug) s;
             (es, q) = resolveOne (the (rframes r)) (pendingFrameRequests s)
         in Inr (performAll es (s\<lparr>pendingFrameRequests := q\<rparr>)))
      else if rtype r = Some ''detached'' then Inr (perform (Log Debug) s)
      else if rtype r = Some ''exited'' then
        (let s = perform (Log Debug) s;
             (es, q) = rejectAll ''Exited'' (pendingFrameRequests s);
             s = performAll es (s\<lparr>pendingFrameRequests := q\<rparr>)
         in Inr (perform (Emit ExitedEvent) s))
      else if rerror r = Some ''wrongState'' then
        (let s = perform (Log Warn) s
         in Inr (perform (Emit WrongStateEvent) s))
      else
        (if rtype r = Some ''newGlobal'' then Inr (perform (Log Debug) s)
         else Inr (perform (Log Warn) s)))"

subsection \<open>Runs\<close>

text \<open>
  What can happen to a proxy after its construction: a call of a public method, a call of
  the completion callback that \<^verbatim>\<open>runOnPausedThread\<close> hands to its operation, or a
  message delivered by the connection. When the handler throws, the proxy stays as the
  throw left it.
\<close>

datatype action =
    CallInterrupt
  | CallResume
  | CallStepOver
  | CallStepInto
  | CallStepOut
  | CallFetchStackFrames
  | CallEvaluate string string
  | CallRunOnPausedThread
  | OperationFinished
  | Receive response

definition afterwards :: "(exn \<times> thread) + thread \<Rightarrow> thread" where
  "afterwards x = (case x of Inl (e, s) \<Rightarrow> s | Inr s \<Rightarrow> s)"

fun step :: "action \<Rightarrow> thread \<Rightarrow> thread" where
  "step CallInterrupt s = interrupt s"
| "step CallResume s = resume s"
| "step CallStepOver s = stepOver s"
| "step CallStepInto s = stepInto s"
| "step CallStepOut s = stepOut s"
| "step CallFetchStackFrames s = fetchStackFrames s"
| "step (CallEvaluate expr frameActorName) s = evaluate expr frameActorName s"
| "step CallRunOnPausedThread s = runOnPausedThread s"
| "step OperationFinished s = operationFinishedOnPausedThread s"
| "step (Receive r) s = afterwards (receiveResponse r s)"

fun run :: "thread \<Rightarrow> action list \<Rightarrow> thread" where
  "run s [] = s"
| "run s (a # as) = run (step a s) as"

text \<open>The requests handed to \<^verbatim>\<open>sendRequest\<close>, in order.\<close>

fun requests :: "effect list \<Rightarrow> request list" where
  "requests [] = []"
| "requests (SendRequest to r # es) = r # requests es"
| "requests (e # es) = requests es"

text \<open>The calls of \<^verbatim>\<open>resolve\<close> and \<^verbatim>\<open>reject\<close> of evaluate promises, in order.\<close>

fun gripSettlements :: "effect list \<Rightarrow> effect list" where
  "gripSettlements [] = []"
| "gripSettlements (ResolveGrip p v # es) = ResolveGrip p v # gripSettlements es"
| "gripSettlements (RejectGrip p err # es) = RejectGrip p err # gripSettlements es"
| "gripSettlements (e # es) = gripSettlements es"

subsection \<open>The invariant of the operation counter\<close>

definition pausedWhileOperating :: "thread \<Rightarrow> bool" where
  "pausedWhileOperating s =
     (if operationsRunningOnPausedThread s > 0 then paused s else True)"

subsection \<open>A monitor for evaluate requests\<close>

text \<open>
  The evaluate requests that a run accepts, in the order of the calls: \<^verbatim>\<open>evaluate\<close>
  puts a request on the queue when \<^verbatim>\<open>desiredState\<close> is \<^verbatim>\<open>'paused'\<close> and rejects it at
  once otherwise.
\<close>

definition submitted :: "action \<Rightarrow> thread \<Rightarrow> QueuedRequest list" where
  "submitted a s =
     (case a of
        CallEvaluate expr frameActorName \<Rightarrow>
          (if desiredState s = Paused
           then [\<lparr>qexpr = expr, qframe = frameActorName, settle = nextPromise s\<rparr>]
           else [])
      | _ \<Rightarrow> [])"

fun accepted :: "thread \<Rightarrow> action list \<Rightarrow> QueuedRequest list" where
  "accepted s [] = []"
| "accepted s (a # as) = submitted a s @ accepted (step a s) as"

text \<open>
  The monitor reads a trace from its oldest effect on. It holds the accepted requests
  not yet sent, the promise of the request that was sent and is not yet settled, and
  whether all it saw was in order. A \<^verbatim>\<open>clientEvaluate\<close> request is in order when it is
  that of the oldest request waiting and nothing is in flight; the request then is in
  flight until its promise is resolved or rejected.
\<close>

record monitor =
  waiting :: "QueuedRequest list"
  inflight :: "promise option"
  ok :: bool

fun observe :: "monitor \<Rightarrow> effect \<Rightarrow> monitor" where
  "observe m (SendRequest to (ClientEvaluate expr frameActorName)) =
     (case waiting m of
        [] \<Rightarrow> m\<lparr>ok := False\<rparr>
      | q # rest \<Rightarrow>
          \<lparr>waiting = rest, inflight = Some (settle q),
           ok = (ok m \<and> inflight m = None \<and> send q = ClientEvaluate expr frameActorName)\<rparr>)"
| "observe m (ResolveGrip p v) = (if inflight m = Some p then m\<lparr>inflight := None\<rparr> else m)"
| "observe m (RejectGrip p err) = (if inflight m = Some p then m\<lparr>inflight := None\<rparr> else m)"
| "observe m e = m"

definition watch :: "QueuedRequest list \<Rightarrow> effect list \<Rightarrow> monitor" where
  "watch qs es = foldl observe \<lparr>waiting = qs, inflight = None, ok = True\<rparr> es"

text \<open>
  What the monitor has reached after the trace of a state, when \<open>later\<close> are the requests
  accepted after that state; and every promise the state holds has been created.
\<close>

definition tracks :: "monitor \<Rightarrow> QueuedRequest list \<Rightarrow> thread \<Rightarrow> bool" where
  "tracks m later s =
     (foldl observe m (trace s) =
        \<lparr>waiting = queuedEvaluateRequests s @ later,
         inflight = pendingEvaluateRequest s, ok = True\<rparr>
      \<and> list_all (\<lambda>p. p < nextPromise s) (map settle (queuedEvaluateRequests s))
      \<and> list_all (\<lambda>p. p < nextPromise s)
          (case pendingEvaluateRequest s of None \<Rightarrow> [] | Some p \<Rightarrow> [p]))"

subsection \<open>Concrete states and messages\<close>

definition message :: "string \<Rightarrow> response" where
  "message t =
     \<lparr>rtype = Some t, rwhy = \<lparr>wtype = [], frameFinished_return = []\<rparr>,
      rsource = \<lparr>url = [], actor = []\<rparr>, rsources = None, rframes = None, rerror = None\<rparr>"

definition pausedMessage :: "string \<Rightarrow> grip \<Rightarrow> response" where
  "pausedMessage w v =
     (message ''paused'')\<lparr>rwhy := \<lparr>wtype = w, frameFinished_return = v\<rparr>\<rparr>"

text \<open>
  A running thread with two evaluate requests on the queue, none active and no operation
  running.
\<close>

definition racing :: thread where
  "racing =
     \<lparr>name = ''tab1'', desiredState = Running, paused = False,
      operationsRunningOnPausedThread = 0, pendingFrameRequests = [],
      queuedEvaluateRequests =
        [\<lparr>qexpr = ''1+1'', qframe = ''frame1'', settle = 0\<rparr>,
         \<lparr>qexpr = ''2+2'', qframe = ''frame1'', settle = 1\<rparr>],
      pendingEvaluateRequest = None, nextPromise = 2, trace = []\<rparr>"

text \<open>
  A proxy whose evaluate request is on the wire and that has been interrupted since:
  \<^verbatim>\<open>paused\<close> is \<^verbatim>\<open>true\<close> again and the request is still active.
\<close>

definition evaluating :: thread where
  "evaluating = run (ThreadActorProxy ''tab1'') [CallEvaluate ''1+1'' ''frame1'', CallInterrupt]"

subsection \<open>States that runs reach\<close>

text \<open>
  Three facts about a state, and the rejections with "Thread is running" in a trace.
  \<open>serviceable\<close>: if \<^verbatim>\<open>doNext\<close> would look at the queue and find a request, the thread
  is paused. \<open>anchored\<close>: the thread is paused while an operation runs, and while it is
  wanted paused with no evaluate request active; and no request was rejected as running.
  \<open>drained\<close>: with no operation running and no evaluate request active, none is queued.
\<close>

fun runningRejections :: "effect list \<Rightarrow> effect list" where
  "runningRejections [] = []"
| "runningRejections (RejectGrip p err # es) =
     (if err = ''Thread is running'' then RejectGrip p err # runningRejections es
      else runningRejections es)"
| "runningRejections (e # es) = runningRejections es"

definition serviceable :: "thread \<Rightarrow> bool" where
  "serviceable s =
     (\<not> 0 < operationsRunningOnPausedThread s \<and> pendingEvaluateRequest s = None
        \<and> queuedEvaluateRequests s \<noteq> [] \<longrightarrow> paused s)"

definition anchored :: "thread \<Rightarrow> bool" where
  "anchored s =
     (pausedWhileOperating s
      \<and> (desiredState s = Paused \<and> pendingEvaluateRequest s = None \<longrightarrow> paused s)
      \<and> runningRejections (trace s) = [])"

definition drained :: "thread \<Rightarrow> bool" where
  "drained s =
     (\<not> 0 < operationsRunningOnPausedThread s \<and> pendingEvaluateRequest s = None
        \<longrightarrow> queuedEvaluateRequests s = [])"

text \<open>
  The steps of a run that are calls (of a public method or of the completion callback),
  and the settlements of the evaluate promises created before the \<open>n\<close>-th promise.
\<close>

fun isCall :: "action \<Rightarrow> bool" where
  "isCall (Receive r) = False"
| "isCall a = True"

fun heldSettlements :: "promise \<Rightarrow> effect list \<Rightarrow> effect list" where
  "heldSettlements n [] = []"
| "heldSettlements n (ResolveGrip p v # es) =
     (if p < n then ResolveGrip p v # heldSettlements n es else heldSettlements n es)"
| "heldSettlements n (RejectGrip p err # es) =
     (if p < n then RejectGrip p err # heldSettlements n es else heldSettlements n es)"
| "heldSettlements n (e # es) = heldSettlements n es"

section \<open>Properties\<close>

lemmas method_defs =
  perform_def performAll_def sendPauseRequest_def doNext_def runOnPausedThread_def
  operationFinishedOnPausedThread_def interrupt_def fetchStackFrames_def resume_def
  stepOver_def stepInto_def stepOut_def evaluate_def receiveResponse_def afterwards_def
  enqueue_def resolveOne_def rejectAll_def send_def Let_def

lemmas state_defs = ThreadActorProxy_def message_def pausedMessage_def

subsection \<open>What each method leaves alone\<close>

lemma perform_fields [simp]:
  "name (perform e s) = name s"
  "desiredState (perform e s) = desiredState s"
  "paused (perform e s) = paused s"
  "operationsRunningOnPausedThread (perform e s) = operationsRunningOnPausedThread s"
  "pendingFrameRequests (perform e s) = pendingFrameRequests s"
  "queuedEvaluateRequests (perform e s) = queuedEvaluateRequests s"
  "pendingEvaluateRequest (perform e s) = pendingEvaluateRequest s"
  "nextPromise (perform e s) = nextPromise s"
  "trace (perform e s) = trace s @ [e]"
  by (simp_all add: perform_def)

lemma performAll_fields [simp]:
  "name (performAll es s) = name s"
  "desiredState (performAll es s) = desiredState s"
  "paused (performAll es s) = paused s"
  "operationsRunningOnPausedThread (performAll es s) = operationsRunningOnPausedThread s"
  "pendingFrameRequests (performAll es s) = pendingFrameRequests s"
  "queuedEvaluateRequests (performAll es s) = queuedEvaluateRequests s"
  "pendingEvaluateRequest (performAll es s) = pendingEvaluateRequest s"
  "nextPromise (performAll es s) = nextPromise s"
  "trace (performAll es s) = trace s @ es"
  by (simp_all add: performAll_def)

lemma sendPauseRequest_fields [simp]:
  "name (sendPauseRequest s) = name s"
  "desiredState (sendPauseRequest s) = desiredState s"
  "paused (sendPauseRequest s) = True"
  "operationsRunningOnPausedThread (sendPauseRequest s) = operationsRunningOnPausedThread s"
  "pendingFrameRequests (sendPauseRequest s) = pendingFrameRequests s"
  "queuedEvaluateRequests (sendPauseRequest s) = queuedEvaluateRequests s"
  "pendingEvaluateRequest (sendPauseRequest s) = pendingEvaluateRequest s"
  "nextPromise (sendPauseRequest s) = nextPromise s"
  "trace (sendPauseRequest s) = trace s @ [Log Debug, SendRequest (name s) InterruptRequest]"
  by (simp_all add: sendPauseRequest_def Let_def)

lemma doNext_fields [simp]:
  "name (doNext s) = name s"
  "desiredState (doNext s) = desiredState s"
  "operationsRunningOnPausedThread (doNext s) = operationsRunningOnPausedThread s"
  "pendingFrameRequests (doNext s) = pendingFrameRequests s"
  "nextPromise (doNext s) = nextPromise s"
  by (simp_all add: doNext_def Let_def split: list.split desired.split)

lemma requests_append: "requests (es @ fs) = requests es @ requests fs"
  by (induction es rule: requests.induct) simp_all

lemma gripSettlements_append:
  "gripSettlements (es @ fs) = gripSettlements es @ gripSettlements fs"
  by (induction es rule: gripSettlements.induct) simp_all

lemma gripSettlements_frame_rejections:
  "gripSettlements (map (\<lambda>p. RejectFrames p err) ps) = []"
  by (induction ps) simp_all

subsection \<open>The branch of \<^verbatim>\<open>doNext\<close> for a running thread with queued requests\<close>



text \<open>
  What becomes of a request left on the queue: once the thread is paused again (here by
  an operation that starts and finishes), \<^verbatim>\<open>doNext\<close> sends the request whose promise it
  has rejected.
\<close>

lemma rejected_request_sent_later:
  "requests (trace (run (doNext racing) [CallRunOnPausedThread, OperationFinished])) =
     [InterruptRequest, ClientEvaluate ''1+1'' ''frame1'']
   \<and> pendingEvaluateRequest (run (doNext racing) [CallRunOnPausedThread, OperationFinished]) =
     Some 0"
  by (simp add: racing_def method_defs)

subsection \<open>Operations in progress keep the thread paused\<close>

lemma doNext_operating:
  "0 < operationsRunningOnPausedThread s \<Longrightarrow> paused (doNext s) = paused s"
  by (simp add: doNext_def)

lemma receiveResponse_operations:
  "operationsRunningOnPausedThread (afterwards (receiveResponse r s)) =
     operationsRunningOnPausedThread s"
  by (simp add: receiveResponse_def afterwards_def Let_def resolveOne_def rejectAll_def
      split: option.split list.split)

lemma receiveResponse_operating:
  "0 < operationsRunningOnPausedThread s \<Longrightarrow> paused s \<Longrightarrow>
   paused (afterwards (receiveResponse r s))"
  by (simp add: receiveResponse_def afterwards_def Let_def resolveOne_def rejectAll_def
      doNext_operating split: option.split list.split)

lemma step_pausedWhileOperating:
  assumes "pausedWhileOperating s"
  shows "pausedWhileOperating (step a s)"
proof (cases a)
  case CallInterrupt
  with assms show ?thesis
    by (simp add: pausedWhileOperating_def interrupt_def Let_def split: if_splits)
next
  case CallResume
  with assms show ?thesis
    by (simp add: pausedWhileOperating_def resume_def Let_def doNext_operating
        split: if_splits)
next
  case CallStepOver
  with assms show ?thesis
    by (simp add: pausedWhileOperating_def stepOver_def Let_def doNext_operating
        split: if_splits)
next
  case CallStepInto
  with assms show ?thesis
    by (simp add: pausedWhileOperating_def stepInto_def Let_def doNext_operating
        split: if_splits)
next
  case CallStepOut
  with assms show ?thesis
    by (simp add: pausedWhileOperating_def stepOut_def Let_def doNext_operating
        split: if_splits)
next
  case CallFetchStackFrames
  with assms show ?thesis
    by (simp add: pausedWhileOperating_def fetchStackFrames_def Let_def split: if_splits)
next
  case (CallEvaluate expr frameActorName)
  with assms show ?thesis
    by (simp add: pausedWhileOperating_def evaluate_def Let_def doNext_operating
        split: if_splits)
next
  case CallRunOnPausedThread
  with assms show ?thesis
    by (simp add: pausedWhileOperating_def runOnPausedThread_def Let_def split: if_splits)
next
  case OperationFinished
  with assms show ?thesis
    by (simp add: pausedWhileOperating_def operationFinishedOnPausedThread_def Let_def
        doNext_operating split: if_splits)
next
  case (Receive r)
  with assms show ?thesis
    by (simp add: pausedWhileOperating_def receiveResponse_operations
        receiveResponse_operating split: if_splits)
qed

lemma run_pausedWhileOperating:
  "pausedWhileOperating s \<Longrightarrow> pausedWhileOperating (run s as)"
  by (induction as arbitrary: s) (simp_all add: step_pausedWhileOperating)

text \<open>
  Claim C2. In every state that a run of calls, completion callbacks and inbound
  messages reaches from the constructor, a positive
  \<^verbatim>\<open>operationsRunningOnPausedThread\<close> implies that \<^verbatim>\<open>paused\<close> is true.
\<close>

theorem operations_imply_paused:
  "0 < operationsRunningOnPausedThread (run (ThreadActorProxy nm) as) \<Longrightarrow>
   paused (run (ThreadActorProxy nm) as)"
proof -
  assume running: "0 < operationsRunningOnPausedThread (run (ThreadActorProxy nm) as)"
  have "pausedWhileOperating (ThreadActorProxy nm)"
    by (simp add: pausedWhileOperating_def ThreadActorProxy_def)
  then have "pausedWhileOperating (run (ThreadActorProxy nm) as)"
    by (rule run_pausedWhileOperating)
  with running show "paused (run (ThreadActorProxy nm) as)"
    by (simp add: pausedWhileOperating_def)
qed

theorem operations_imply_paused_witness:
  "0 < operationsRunningOnPausedThread
         (run (ThreadActorProxy ''tab1'') [CallResume, CallRunOnPausedThread])
   \<and> paused (run (ThreadActorProxy ''tab1'') [CallResume, CallRunOnPausedThread])
   \<and> \<not> paused (run (ThreadActorProxy ''tab1'') [CallResume])"
proof -
  have running:
    "0 < operationsRunningOnPausedThread
           (run (ThreadActorProxy ''tab1'') [CallResume, CallRunOnPausedThread])"
    by (simp add: ThreadActorProxy_def method_defs)
  have before: "\<not> paused (run (ThreadActorProxy ''tab1'') [CallResume])"
    by (simp add: ThreadActorProxy_def method_defs)
  from running before operations_imply_paused [OF running] show ?thesis
    by simp
qed

subsection \<open>Evaluate requests go out in order, one at a time\<close>

lemma observe_rejections:
  "inflight m = None \<Longrightarrow> foldl observe m (map (\<lambda>q. RejectGrip (settle q) err) qs) = m"
  by (induction qs) simp_all

lemma observe_frame_rejections:
  "foldl observe m (map (\<lambda>p. RejectFrames p err) ps) = m"
  by (induction ps) simp_all

lemma list_all_less_Suc: "list_all (\<lambda>p. p < n) ps \<Longrightarrow> list_all (\<lambda>p. p < Suc n) ps"
  by (induction ps) auto

lemma tracks_perform:
  "tracks m later s \<Longrightarrow> observe (foldl observe m (trace s)) e = foldl observe m (trace s) \<Longrightarrow>
   tracks m later (perform e s)"
  by (simp add: tracks_def)

lemma tracks_paused: "tracks m later s \<Longrightarrow> tracks m later (s\<lparr>paused := b\<rparr>)"
  by (simp add: tracks_def)

lemma tracks_desired: "tracks m later s \<Longrightarrow> tracks m later (s\<lparr>desiredState := d\<rparr>)"
  by (simp add: tracks_def)

lemma tracks_operations:
  "tracks m later s \<Longrightarrow> tracks m later (s\<lparr>operationsRunningOnPausedThread := n\<rparr>)"
  by (simp add: tracks_def)

lemma tracks_resolve:
  "tracks m later s \<Longrightarrow> pendingEvaluateRequest s = Some p \<Longrightarrow>
   tracks m later ((perform (ResolveGrip p v) s)\<lparr>pendingEvaluateRequest := None\<rparr>)"
  by (simp add: tracks_def)

lemma tracks_rejectAll:
  "tracks m later s \<Longrightarrow>
   tracks m later
     (performAll (map (\<lambda>p. RejectFrames p err) ps) (s\<lparr>pendingFrameRequests := q\<rparr>))"
  by (simp add: tracks_def observe_frame_rejections)

lemma tracks_resolveOne:
  "tracks m later s \<Longrightarrow>
   tracks m later (performAll (fst (resolveOne fs ps)) (s\<lparr>pendingFrameRequests := q\<rparr>))"
  by (simp add: tracks_def resolveOne_def split: list.split)

lemma doNext_tracks: "tracks m later s \<Longrightarrow> tracks m later (doNext s)"
  by (auto simp add: tracks_def doNext_def Let_def send_def observe_rejections
      split: list.split desired.split option.split)

lemma sendPauseRequest_tracks: "tracks m later s \<Longrightarrow> tracks m later (sendPauseRequest s)"
  by (simp add: tracks_def)

lemma interrupt_tracks: "tracks m later s \<Longrightarrow> tracks m later (interrupt s)"
  by (simp add: interrupt_def Let_def sendPauseRequest_tracks tracks_desired tracks_perform)

lemma resume_tracks: "tracks m later s \<Longrightarrow> tracks m later (resume s)"
  by (simp add: resume_def Let_def doNext_tracks tracks_desired tracks_perform)

lemma stepOver_tracks: "tracks m later s \<Longrightarrow> tracks m later (stepOver s)"
  by (simp add: stepOver_def Let_def doNext_tracks tracks_desired tracks_perform)

lemma stepInto_tracks: "tracks m later s \<Longrightarrow> tracks m later (stepInto s)"
  by (simp add: stepInto_def Let_def doNext_tracks tracks_desired tracks_perform)

lemma stepOut_tracks: "tracks m later s \<Longrightarrow> tracks m later (stepOut s)"
  by (simp add: stepOut_def Let_def doNext_tracks tracks_desired tracks_perform)

lemma fetchStackFrames_tracks: "tracks m later s \<Longrightarrow> tracks m later (fetchStackFrames s)"
  by (auto simp: fetchStackFrames_def Let_def tracks_def list_all_less_Suc
      split: option.splits)

lemma runOnPausedThread_tracks: "tracks m later s \<Longrightarrow> tracks m later (runOnPausedThread s)"
  by (auto simp: runOnPausedThread_def Let_def tracks_def list_all_less_Suc
      split: option.splits)

lemma operationFinished_tracks:
  "tracks m later s \<Longrightarrow> tracks m later (operationFinishedOnPausedThread s)"
  by (simp add: operationFinishedOnPausedThread_def Let_def doNext_tracks tracks_operations
      tracks_perform)

lemma evaluate_tracks:
  assumes "tracks m (submitted (CallEvaluate expr frameActorName) s @ later) s"
  shows "tracks m later (evaluate expr frameActorName s)"
proof (cases "desiredState s = Paused")
  case True
  with assms have "tracks m later
      (s\<lparr>nextPromise := nextPromise s + 1,
         queuedEvaluateRequests := queuedEvaluateRequests s
           @ [\<lparr>qexpr = expr, qframe = frameActorName, settle = nextPromise s\<rparr>]\<rparr>)"
    by (auto simp: submitted_def tracks_def list_all_less_Suc split: option.splits)
  then have "tracks m later (doNext
      (s\<lparr>nextPromise := nextPromise s + 1,
         queuedEvaluateRequests := queuedEvaluateRequests s
           @ [\<lparr>qexpr = expr, qframe = frameActorName, settle = nextPromise s\<rparr>]\<rparr>))"
    by (rule doNext_tracks)
  with True show ?thesis
    by (simp add: evaluate_def Let_def)
next
  case False
  with assms show ?thesis
    by (auto simp: evaluate_def Let_def submitted_def tracks_def list_all_less_Suc
        split: option.splits)
qed

lemma receiveResponse_tracks:
  assumes "tracks m later s"
  shows "tracks m later (afterwards (receiveResponse r s))"
proof (cases "rtype r = Some ''paused''")
  case True
  show ?thesis
  proof (cases "pendingEvaluateRequest s")
    case None
    with assms True show ?thesis
      by (simp add: receiveResponse_def afterwards_def Let_def
          tracks_perform tracks_paused tracks_desired doNext_tracks)
  next
    case (Some p)
    with assms True show ?thesis
      by (simp add: receiveResponse_def afterwards_def Let_def
          tracks_perform tracks_paused tracks_desired doNext_tracks tracks_resolve)
  qed
next
  case False
  with assms show ?thesis
    by (simp add: receiveResponse_def afterwards_def Let_def rejectAll_def split_beta
        tracks_perform tracks_rejectAll tracks_resolveOne)
qed

lemma step_tracks: "tracks m (submitted a s @ later) s \<Longrightarrow> tracks m later (step a s)"
proof (cases a)
  case (CallEvaluate expr frameActorName)
  assume "tracks m (submitted a s @ later) s"
  with CallEvaluate show ?thesis
    by (simp add: evaluate_tracks)
qed (simp_all add: submitted_def interrupt_tracks resume_tracks stepOver_tracks
    stepInto_tracks stepOut_tracks fetchStackFrames_tracks runOnPausedThread_tracks
    operationFinished_tracks receiveResponse_tracks)

lemma run_tracks: "tracks m (accepted s as @ later) s \<Longrightarrow> tracks m later (run s as)"
  by (induction as arbitrary: s) (simp_all add: step_tracks)

lemma constructor_tracks:
  "tracks \<lparr>waiting = qs, inflight = None, ok = True\<rparr> qs (ThreadActorProxy nm)"
  by (simp add: tracks_def ThreadActorProxy_def)

text \<open>
  Claim C3. Take any run from the constructor (where the thread is paused) and the
  evaluate calls it accepts, in the order of the calls. Reading the trace of the run,
  the monitor finds every \<^verbatim>\<open>clientEvaluate\<close> request to be that of the oldest accepted
  request not yet sent, sent while no earlier one was in flight, that is after the
  promise of the one before it was resolved or rejected. At the end the requests still
  waiting are the queue and the one in flight is \<^verbatim>\<open>pendingEvaluateRequest\<close>.
\<close>

theorem evaluate_requests_in_order_one_at_a_time:
  "watch (accepted (ThreadActorProxy nm) as) (trace (run (ThreadActorProxy nm) as)) =
     \<lparr>waiting = queuedEvaluateRequests (run (ThreadActorProxy nm) as),
      inflight = pendingEvaluateRequest (run (ThreadActorProxy nm) as),
      ok = True\<rparr>"
proof -
  have "tracks \<lparr>waiting = accepted (ThreadActorProxy nm) as, inflight = None, ok = True\<rparr>
          (accepted (ThreadActorProxy nm) as @ []) (ThreadActorProxy nm)"
    by (simp add: constructor_tracks)
  then have "tracks \<lparr>waiting = accepted (ThreadActorProxy nm) as, inflight = None, ok = True\<rparr>
          [] (run (ThreadActorProxy nm) as)"
    by (rule run_tracks)
  then show ?thesis
    by (simp add: tracks_def watch_def)
qed

text \<open>
  Scenario D of the spec: two evaluate calls back to back, then the answer to the first.
  The first request goes out at once, the second after the first promise is resolved.
\<close>

theorem evaluate_requests_in_order_one_at_a_time_witness:
  "accepted (ThreadActorProxy ''tab1'')
     [CallEvaluate ''1+1'' ''frameX'', CallEvaluate ''2+2'' ''frameX'',
      Receive (pausedMessage ''clientEvaluated'' ''2'')] =
     [\<lparr>qexpr = ''1+1'', qframe = ''frameX'', settle = 0\<rparr>,
      \<lparr>qexpr = ''2+2'', qframe = ''frameX'', settle = 1\<rparr>]
   \<and> gripSettlements (trace (run (ThreadActorProxy ''tab1'')
       [CallEvaluate ''1+1'' ''frameX'', CallEvaluate ''2+2'' ''frameX''])) = []
   \<and> requests (trace (run (ThreadActorProxy ''tab1'')
       [CallEvaluate ''1+1'' ''frameX'', CallEvaluate ''2+2'' ''frameX''])) =
     [Attach, Sources, ClientEvaluate ''1+1'' ''frameX'']
   \<and> trace (run (ThreadActorProxy ''tab1'')
       [CallEvaluate ''1+1'' ''frameX'', CallEvaluate ''2+2'' ''frameX'',
        Receive (pausedMessage ''clientEvaluated'' ''2'')]) =
     [Register, SendRequest ''tab1'' Attach, SendRequest ''tab1'' Sources, Log Debug,
      SendRequest ''tab1'' (ClientEvaluate ''1+1'' ''frameX''),
      Log Debug, Log Debug, ResolveGrip 0 ''2'',
      SendRequest ''tab1'' (ClientEvaluate ''2+2'' ''frameX'')]
   \<and> watch (accepted (ThreadActorProxy ''tab1'')
       [CallEvaluate ''1+1'' ''frameX'', CallEvaluate ''2+2'' ''frameX'',
        Receive (pausedMessage ''clientEvaluated'' ''2'')])
       (trace (run (ThreadActorProxy ''tab1'')
         [CallEvaluate ''1+1'' ''frameX'', CallEvaluate ''2+2'' ''frameX'',
          Receive (pausedMessage ''clientEvaluated'' ''2'')])) =
     \<lparr>waiting = [], inflight = Some 1, ok = True\<rparr>"
  using evaluate_requests_in_order_one_at_a_time
    [of "''tab1''" "[CallEvaluate ''1+1'' ''frameX'', CallEvaluate ''2+2'' ''frameX'',
      Receive (pausedMessage ''clientEvaluated'' ''2'')]"]
  by (simp add: state_defs method_defs submitted_def)

text \<open>The monitor does tell a bad trace from a good one: a second request sent while
  the first is in flight, and a request sent out of turn.\<close>

lemma watch_rejects:
  "\<not> ok (watch [\<lparr>qexpr = ''a'', qframe = ''f'', settle = 0\<rparr>,
               \<lparr>qexpr = ''b'', qframe = ''f'', settle = 1\<rparr>]
          [SendRequest ''tab1'' (ClientEvaluate ''a'' ''f''),
           SendRequest ''tab1'' (ClientEvaluate ''b'' ''f'')])"
  "\<not> ok (watch [\<lparr>qexpr = ''a'', qframe = ''f'', settle = 0\<rparr>,
               \<lparr>qexpr = ''b'', qframe = ''f'', settle = 1\<rparr>]
          [SendRequest ''tab1'' (ClientEvaluate ''b'' ''f'')])"
  "ok (watch [\<lparr>qexpr = ''a'', qframe = ''f'', settle = 0\<rparr>,
             \<lparr>qexpr = ''b'', qframe = ''f'', settle = 1\<rparr>]
          [SendRequest ''tab1'' (ClientEvaluate ''a'' ''f''), RejectGrip 0 ''x'',
           SendRequest ''tab1'' (ClientEvaluate ''b'' ''f'')])"
  by (simp_all add: watch_def send_def)

subsection \<open>\<^verbatim>\<open>interrupt\<close>\<close>

lemma interrupt_fields:
  "desiredState (interrupt s) = Paused"
  "paused (interrupt s)"
  "name (interrupt s) = name s"
  "operationsRunningOnPausedThread (interrupt s) = operationsRunningOnPausedThread s"
  "pendingFrameRequests (interrupt s) = pendingFrameRequests s"
  "queuedEvaluateRequests (interrupt s) = queuedEvaluateRequests s"
  "pendingEvaluateRequest (interrupt s) = pendingEvaluateRequest s"
  "nextPromise (interrupt s) = nextPromise s"
  by (simp_all add: interrupt_def Let_def)

lemma interrupt_requests:
  "requests (trace (interrupt s)) =
     requests (trace s) @ (if paused s then [] else [InterruptRequest])"
  by (simp add: interrupt_def Let_def requests_append)

text \<open>
  Claim C4, as stated: \<^verbatim>\<open>doNext\<close> runs after every change of \<^verbatim>\<open>desiredState\<close>, so
  \<^verbatim>\<open>interrupt\<close> too runs it before returning. In the state \<open>evaluating\<close> an evaluate
  request is active and the thread is paused; \<^verbatim>\<open>doNext\<close>, run after the statements of
  \<^verbatim>\<open>interrupt\<close>, would send a resume request and clear \<^verbatim>\<open>paused\<close>. \<^verbatim>\<open>interrupt\<close> sends
  nothing and leaves the thread paused.
\<close>

theorem interrupt_runs_no_doNext_counterexample:
  "requests (trace (interrupt evaluating)) = requests (trace evaluating)
   \<and> paused (interrupt evaluating)
   \<and> requests (trace (doNext (interrupt evaluating))) =
       requests (trace evaluating) @ [ResumeRequest None]
   \<and> \<not> paused (doNext (interrupt evaluating))
   \<and> interrupt evaluating = (perform (Log Debug) evaluating)\<lparr>desiredState := Paused\<rparr>
   \<and> interrupt evaluating \<noteq> doNext ((perform (Log Debug) evaluating)\<lparr>desiredState := Paused\<rparr>)"
proof -
  have state: "evaluating =
    \<lparr>name = ''tab1'', desiredState = Paused, paused = True,
      operationsRunningOnPausedThread = 0, pendingFrameRequests = [],
      queuedEvaluateRequests = [], pendingEvaluateRequest = Some 0, nextPromise = 1,
      trace = [Register, SendRequest ''tab1'' Attach, SendRequest ''tab1'' Sources, Log Debug,
        SendRequest ''tab1'' (ClientEvaluate ''1+1'' ''frame1''),
        Log Debug, Log Debug, SendRequest ''tab1'' InterruptRequest]\<rparr>"
    by (simp add: evaluating_def state_defs method_defs)
  show ?thesis
    unfolding state by (simp add: method_defs)
qed

text \<open>
  Claim C4, amended. \<^verbatim>\<open>resume\<close>, \<^verbatim>\<open>stepOver\<close>, \<^verbatim>\<open>stepInto\<close> and \<^verbatim>\<open>stepOut\<close>, called
  with \<^verbatim>\<open>desiredState\<close> \<^verbatim>\<open>'paused'\<close>, set \<^verbatim>\<open>desiredState\<close> and then run \<^verbatim>\<open>doNext\<close>, and
  so do the handlers of the pauses \<^verbatim>\<open>resumeLimit\<close> and \<^verbatim>\<open>breakpoint\<close>. \<^verbatim>\<open>interrupt\<close>
  does not: it sets \<^verbatim>\<open>desiredState\<close> to \<^verbatim>\<open>'paused'\<close>, sends one interrupt request if
  \<^verbatim>\<open>paused\<close> was false and none otherwise, leaves \<^verbatim>\<open>paused\<close> true and touches neither
  the counter nor the evaluate requests.
\<close>

theorem doNext_after_desiredState_changes:
  "(desiredState s = Paused \<longrightarrow>
      resume s = doNext ((perform (Log Debug) s)\<lparr>desiredState := Running\<rparr>)
    \<and> stepOver s = doNext ((perform (Log Debug) s)\<lparr>desiredState := StepOver\<rparr>)
    \<and> stepInto s = doNext ((perform (Log Debug) s)\<lparr>desiredState := StepInto\<rparr>)
    \<and> stepOut s = doNext ((perform (Log Debug) s)\<lparr>desiredState := StepOut\<rparr>))
   \<and> (w = ''resumeLimit'' \<or> w = ''breakpoint'' \<longrightarrow>
      receiveResponse (pausedMessage w v) s =
        Inr (perform (Emit (PausedEvent w))
          (doNext ((perform (Log Debug) (perform (Log Debug) s))
             \<lparr>paused := True, desiredState := Paused\<rparr>))))
   \<and> desiredState (interrupt s) = Paused
   \<and> paused (interrupt s)
   \<and> requests (trace (interrupt s)) =
       requests (trace s) @ (if paused s then [] else [InterruptRequest])
   \<and> operationsRunningOnPausedThread (interrupt s) = operationsRunningOnPausedThread s
   \<and> queuedEvaluateRequests (interrupt s) = queuedEvaluateRequests s
   \<and> pendingEvaluateRequest (interrupt s) = pendingEvaluateRequest s"
proof -
  have calls: "desiredState s = Paused \<longrightarrow>
      resume s = doNext ((perform (Log Debug) s)\<lparr>desiredState := Running\<rparr>)
    \<and> stepOver s = doNext ((perform (Log Debug) s)\<lparr>desiredState := StepOver\<rparr>)
    \<and> stepInto s = doNext ((perform (Log Debug) s)\<lparr>desiredState := StepInto\<rparr>)
    \<and> stepOut s = doNext ((perform (Log Debug) s)\<lparr>desiredState := StepOut\<rparr>)"
    by (simp add: resume_def stepOver_def stepInto_def stepOut_def Let_def)
  have pauses: "w = ''resumeLimit'' \<or> w = ''breakpoint'' \<longrightarrow>
      receiveResponse (pausedMessage w v) s =
        Inr (perform (Emit (PausedEvent w))
          (doNext ((perform (Log Debug) (perform (Log Debug) s))
             \<lparr>paused := True, desiredState := Paused\<rparr>)))"
    by (auto simp add: receiveResponse_def pausedMessage_def message_def Let_def)
  from calls pauses show ?thesis
    by (simp add: interrupt_fields interrupt_requests)
qed

theorem doNext_after_desiredState_changes_witness:
  "desiredState (ThreadActorProxy ''tab1'') = Paused
   \<and> requests (trace (resume (ThreadActorProxy ''tab1''))) =
       [Attach, Sources, ResumeRequest None]
   \<and> requests (trace (interrupt (resume (ThreadActorProxy ''tab1'')))) =
       [Attach, Sources, ResumeRequest None, InterruptRequest]
   \<and> receiveResponse (pausedMessage ''breakpoint'' []) (resume (ThreadActorProxy ''tab1'')) =
       Inr (perform (Emit (PausedEvent ''breakpoint''))
          (doNext ((perform (Log Debug) (perform (Log Debug) (resume (ThreadActorProxy ''tab1''))))
             \<lparr>paused := True, desiredState := Paused\<rparr>)))"
proof -
  have start: "desiredState (ThreadActorProxy ''tab1'') = Paused"
    by (simp add: ThreadActorProxy_def)
  have running: "\<not> paused (resume (ThreadActorProxy ''tab1''))"
    by (simp add: ThreadActorProxy_def method_defs)
  have sent: "requests (trace (doNext ((perform (Log Debug) (ThreadActorProxy ''tab1''))
      \<lparr>desiredState := Running\<rparr>))) = [Attach, Sources, ResumeRequest None]"
    by (simp add: ThreadActorProxy_def method_defs)
  from start running sent
    doNext_after_desiredState_changes [of "ThreadActorProxy ''tab1''" "''breakpoint''" "[]"]
    doNext_after_desiredState_changes [of "resume (ThreadActorProxy ''tab1'')" "''breakpoint''" "[]"]
  show ?thesis
    by simp
qed

text \<open>
  Claim C5. On a thread that is paused, any number of calls of \<^verbatim>\<open>interrupt\<close> sends
  no request, the first call included, and after each call \<^verbatim>\<open>desiredState\<close> is
  \<^verbatim>\<open>'paused'\<close> and \<^verbatim>\<open>paused\<close> is true.
\<close>

theorem interrupt_idempotent:
  "paused s \<Longrightarrow>
   requests (trace ((interrupt ^^ Suc n) s)) = requests (trace (interrupt s))
   \<and> requests (trace (interrupt s)) = requests (trace s)
   \<and> desiredState ((interrupt ^^ Suc n) s) = Paused
   \<and> paused ((interrupt ^^ Suc n) s)"
proof (induction n)
  case 0
  then show ?case
    by (simp add: interrupt_fields interrupt_requests)
next
  case (Suc n)
  from Suc have "paused ((interrupt ^^ Suc n) s)"
    by blast
  then have "requests (trace (interrupt ((interrupt ^^ Suc n) s))) =
      requests (trace ((interrupt ^^ Suc n) s))"
    by (simp add: interrupt_requests)
  with Suc show ?case
    by (simp add: interrupt_fields)
qed

theorem interrupt_idempotent_witness:
  "paused (ThreadActorProxy ''tab1'')
   \<and> requests (trace (interrupt (interrupt (interrupt (ThreadActorProxy ''tab1''))))) =
       [Attach, Sources]
   \<and> desiredState (interrupt (interrupt (interrupt (ThreadActorProxy ''tab1'')))) = Paused
   \<and> paused (interrupt (interrupt (interrupt (ThreadActorProxy ''tab1''))))"
proof -
  have start: "paused (ThreadActorProxy ''tab1'')"
    by (simp add: ThreadActorProxy_def)
  have sent: "requests (trace (ThreadActorProxy ''tab1'')) = [Attach, Sources]"
    by (simp add: ThreadActorProxy_def)
  from start sent interrupt_idempotent [OF start, of "Suc (Suc 0)"] show ?thesis
    by simp
qed

subsection \<open>\<^verbatim>\<open>fetchStackFrames\<close>\<close>

text \<open>
  Claim C6. \<^verbatim>\<open>fetchStackFrames\<close> returns a new promise. If \<^verbatim>\<open>desiredState\<close> is not
  \<^verbatim>\<open>'paused'\<close> or \<^verbatim>\<open>paused\<close> is false, the promise is rejected at once with "not paused",
  nothing is sent and nothing is enqueued. Otherwise the promise is put at the end of
  \<^verbatim>\<open>pendingFrameRequests\<close>, exactly one request, \<^verbatim>\<open>frames\<close>, is sent, and the promise is
  not settled. In both cases no other field changes.
\<close>

theorem fetchStackFrames_rejects_or_enqueues:
  "(desiredState s \<noteq> Paused \<or> \<not> paused s \<longrightarrow>
      (\<exists>logs. trace (fetchStackFrames s) =
         trace s @ map Log logs @ [RejectFrames (nextPromise s) ''not paused''])
      \<and> requests (trace (fetchStackFrames s)) = requests (trace s)
      \<and> pendingFrameRequests (fetchStackFrames s) = pendingFrameRequests s)
   \<and> (desiredState s = Paused \<and> paused s \<longrightarrow>
      trace (fetchStackFrames s) = trace s @ [Log Debug, SendRequest (name s) Frames]
      \<and> requests (trace (fetchStackFrames s)) = requests (trace s) @ [Frames]
      \<and> pendingFrameRequests (fetchStackFrames s) = pendingFrameRequests s @ [nextPromise s])
   \<and> nextPromise (fetchStackFrames s) = nextPromise s + 1
   \<and> name (fetchStackFrames s) = name s
   \<and> desiredState (fetchStackFrames s) = desiredState s
   \<and> paused (fetchStackFrames s) = paused s
   \<and> operationsRunningOnPausedThread (fetchStackFrames s) = operationsRunningOnPausedThread s
   \<and> queuedEvaluateRequests (fetchStackFrames s) = queuedEvaluateRequests s
   \<and> pendingEvaluateRequest (fetchStackFrames s) = pendingEvaluateRequest s"
proof -
  have unwanted: "desiredState s \<noteq> Paused \<Longrightarrow>
      trace (fetchStackFrames s) =
        trace s @ map Log [Warn] @ [RejectFrames (nextPromise s) ''not paused'']"
    by (simp add: fetchStackFrames_def Let_def)
  have running: "desiredState s = Paused \<Longrightarrow> \<not> paused s \<Longrightarrow>
      trace (fetchStackFrames s) =
        trace s @ map Log [Debug, Warn] @ [RejectFrames (nextPromise s) ''not paused'']"
    by (simp add: fetchStackFrames_def Let_def)
  have rejected: "desiredState s \<noteq> Paused \<or> \<not> paused s \<Longrightarrow>
      \<exists>logs. trace (fetchStackFrames s) =
         trace s @ map Log logs @ [RejectFrames (nextPromise s) ''not paused'']"
    using unwanted running by blast
  have rest: "(desiredState s \<noteq> Paused \<or> \<not> paused s \<longrightarrow>
        requests (trace (fetchStackFrames s)) = requests (trace s)
      \<and> pendingFrameRequests (fetchStackFrames s) = pendingFrameRequests s)
   \<and> (desiredState s = Paused \<and> paused s \<longrightarrow>
      trace (fetchStackFrames s) = trace s @ [Log Debug, SendRequest (name s) Frames]
      \<and> requests (trace (fetchStackFrames s)) = requests (trace s) @ [Frames]
      \<and> pendingFrameRequests (fetchStackFrames s) = pendingFrameRequests s @ [nextPromise s])
   \<and> nextPromise (fetchStackFrames s) = nextPromise s + 1
   \<and> name (fetchStackFrames s) = name s
   \<and> desiredState (fetchStackFrames s) = desiredState s
   \<and> paused (fetchStackFrames s) = paused s
   \<and> operationsRunningOnPausedThread (fetchStackFrames s) = operationsRunningOnPausedThread s
   \<and> queuedEvaluateRequests (fetchStackFrames s) = queuedEvaluateRequests s
   \<and> pendingEvaluateRequest (fetchStackFrames s) = pendingEvaluateRequest s"
    by (simp add: fetchStackFrames_def Let_def enqueue_def requests_append)
  from rejected rest show ?thesis
    by blast
qed

text \<open>
  Scenario B of the spec and the good case: after \<^verbatim>\<open>resume\<close> the fetch is rejected; on
  the fresh proxy it is enqueued and sent.
\<close>

theorem fetchStackFrames_rejects_or_enqueues_witness:
  "\<not> paused (resume (ThreadActorProxy ''tab1''))
   \<and> trace (fetchStackFrames (resume (ThreadActorProxy ''tab1''))) =
       trace (resume (ThreadActorProxy ''tab1'')) @ [Log Warn, RejectFrames 0 ''not paused'']
   \<and> desiredState (ThreadActorProxy ''tab1'') = Paused \<and> paused (ThreadActorProxy ''tab1'')
   \<and> requests (trace (fetchStackFrames (ThreadActorProxy ''tab1''))) = [Attach, Sources, Frames]
   \<and> pendingFrameRequests (fetchStackFrames (ThreadActorProxy ''tab1'')) = [0]"
proof -
  have running: "\<not> paused (resume (ThreadActorProxy ''tab1''))"
    by (simp add: ThreadActorProxy_def method_defs)
  have rejected: "trace (fetchStackFrames (resume (ThreadActorProxy ''tab1''))) =
       trace (resume (ThreadActorProxy ''tab1'')) @ [Log Warn, RejectFrames 0 ''not paused'']"
    by (simp add: ThreadActorProxy_def method_defs)
  have start: "desiredState (ThreadActorProxy ''tab1'') = Paused \<and> paused (ThreadActorProxy ''tab1'')
      \<and> requests (trace (ThreadActorProxy ''tab1'')) = [Attach, Sources]
      \<and> pendingFrameRequests (ThreadActorProxy ''tab1'') = []
      \<and> nextPromise (ThreadActorProxy ''tab1'') = 0"
    by (simp add: ThreadActorProxy_def)
  from start fetchStackFrames_rejects_or_enqueues [of "ThreadActorProxy ''tab1''"]
  have enqueued:
    "requests (trace (fetchStackFrames (ThreadActorProxy ''tab1''))) =
       requests (trace (ThreadActorProxy ''tab1'')) @ [Frames]
     \<and> pendingFrameRequests (fetchStackFrames (ThreadActorProxy ''tab1'')) =
       pendingFrameRequests (ThreadActorProxy ''tab1'') @ [nextPromise (ThreadActorProxy ''tab1'')]"
    by blast
  from running rejected start enqueued show ?thesis
    by simp
qed

subsection \<open>The message \<^verbatim>\<open>exited\<close>\<close>

lemma receiveResponse_exited:
  "rtype r = Some ''exited'' \<Longrightarrow> rsources r = None \<Longrightarrow> rframes r = None \<Longrightarrow>
   receiveResponse r s =
     Inr (s\<lparr>pendingFrameRequests := [],
            trace := trace s @ [Log Debug]
              @ map (\<lambda>p. RejectFrames p ''Exited'') (pendingFrameRequests s)
              @ [Emit ExitedEvent]\<rparr>)"
  by (simp add: receiveResponse_def rejectAll_def perform_def performAll_def Let_def)

text \<open>
  Claim C7. A message of type \<^verbatim>\<open>exited\<close> (one that carries neither \<^verbatim>\<open>sources\<close> nor
  \<^verbatim>\<open>frames\<close>, which the handler looks at first) makes the handler reject every
  outstanding frame request with "Exited", oldest first, and then emit \<^verbatim>\<open>exited\<close> once.
  The handler returns normally; \<^verbatim>\<open>doNext\<close> is not run, and no field changes but the
  correlator, which holds nothing outstanding afterwards.
\<close>

theorem exited_rejects_frame_requests:
  "rtype r = Some ''exited'' \<Longrightarrow> rsources r = None \<Longrightarrow> rframes r = None \<Longrightarrow>
   (\<exists>s'. receiveResponse r s = Inr s'
      \<and> trace s' = trace s @ [Log Debug]
           @ map (\<lambda>p. RejectFrames p ''Exited'') (pendingFrameRequests s)
           @ [Emit ExitedEvent]
      \<and> pendingFrameRequests s' = []
      \<and> name s' = name s
      \<and> desiredState s' = desiredState s
      \<and> paused s' = paused s
      \<and> operationsRunningOnPausedThread s' = operationsRunningOnPausedThread s
      \<and> queuedEvaluateRequests s' = queuedEvaluateRequests s
      \<and> pendingEvaluateRequest s' = pendingEvaluateRequest s
      \<and> nextPromise s' = nextPromise s)"
  by (simp add: receiveResponse_exited)

text \<open>Scenario E of the spec: two frame requests are outstanding when the thread exits.\<close>

theorem exited_rejects_frame_requests_witness:
  "pendingFrameRequests (fetchStackFrames (fetchStackFrames (ThreadActorProxy ''tab1''))) = [0, 1]
   \<and> (\<exists>s'. receiveResponse (message ''exited'')
              (fetchStackFrames (fetchStackFrames (ThreadActorProxy ''tab1''))) = Inr s'
        \<and> trace s' =
            trace (fetchStackFrames (fetchStackFrames (ThreadActorProxy ''tab1'')))
            @ [Log Debug, RejectFrames 0 ''Exited'', RejectFrames 1 ''Exited'', Emit ExitedEvent]
        \<and> pendingFrameRequests s' = [])"
proof -
  have outstanding:
    "pendingFrameRequests (fetchStackFrames (fetchStackFrames (ThreadActorProxy ''tab1''))) = [0, 1]"
    by (simp add: ThreadActorProxy_def fetchStackFrames_def enqueue_def Let_def)
  have shape: "rtype (message ''exited'') = Some ''exited''"
    "rsources (message ''exited'') = None" "rframes (message ''exited'') = None"
    by (simp_all add: message_def)
  from exited_rejects_frame_requests [OF shape,
      of "fetchStackFrames (fetchStackFrames (ThreadActorProxy ''tab1''))"] outstanding
  show ?thesis
    by auto
qed

subsection \<open>A step over and the pause that ends it\<close>

text \<open>
  Claim C8. On a thread that is paused and wanted paused, with no operation running, no
  evaluate request queued and none active, \<^verbatim>\<open>stepOver\<close> sends exactly one request, a
  resume with the limit \<^verbatim>\<open>{ type: 'next' }\<close>, and clears \<^verbatim>\<open>paused\<close>. A \<^verbatim>\<open>paused\<close> message
  with reason \<^verbatim>\<open>resumeLimit\<close> then sets \<^verbatim>\<open>paused\<close>, puts \<^verbatim>\<open>desiredState\<close> back to
  \<^verbatim>\<open>'paused'\<close>, runs \<^verbatim>\<open>doNext\<close> (which finds nothing to do) and emits one \<^verbatim>\<open>paused\<close>
  event with the reason \<^verbatim>\<open>resumeLimit\<close>.
\<close>

theorem stepOver_then_resumeLimit:
  "desiredState s = Paused \<Longrightarrow> paused s \<Longrightarrow> operationsRunningOnPausedThread s = 0 \<Longrightarrow>
   queuedEvaluateRequests s = [] \<Longrightarrow> pendingEvaluateRequest s = None \<Longrightarrow>
   rtype r = Some ''paused'' \<Longrightarrow> wtype (rwhy r) = ''resumeLimit'' \<Longrightarrow>
   trace (stepOver s) =
     trace s @ [Log Debug, SendRequest (name s) (ResumeRequest (Some Next))]
   \<and> requests (trace (stepOver s)) = requests (trace s) @ [ResumeRequest (Some Next)]
   \<and> \<not> paused (stepOver s)
   \<and> desiredState (stepOver s) = StepOver
   \<and> receiveResponse r (stepOver s) =
       Inr (perform (Emit (PausedEvent ''resumeLimit''))
         (doNext ((perform (Log Debug) (perform (Log Debug) (stepOver s)))
            \<lparr>paused := True, desiredState := Paused\<rparr>)))
   \<and> receiveResponse r (stepOver s) =
       Inr (s\<lparr>trace := trace s @ [Log Debug, SendRequest (name s) (ResumeRequest (Some Next)),
              Log Debug, Log Debug, Emit (PausedEvent ''resumeLimit'')]\<rparr>)"
proof -
  assume fields: "desiredState s = Paused" "paused s" "operationsRunningOnPausedThread s = 0"
    "queuedEvaluateRequests s = []" "pendingEvaluateRequest s = None"
    and shape: "rtype r = Some ''paused''" "wtype (rwhy r) = ''resumeLimit''"
  from fields have stepped: "stepOver s =
      s\<lparr>desiredState := StepOver, paused := False,
        trace := trace s @ [Log Debug, SendRequest (name s) (ResumeRequest (Some Next))]\<rparr>"
    by (simp add: stepOver_def doNext_def perform_def Let_def)
  from shape have handled: "receiveResponse r (stepOver s) =
       Inr (perform (Emit (PausedEvent ''resumeLimit''))
         (doNext ((perform (Log Debug) (perform (Log Debug) (stepOver s)))
            \<lparr>paused := True, desiredState := Paused\<rparr>)))"
    by (simp add: receiveResponse_def Let_def)
  from fields have settled: "perform (Emit (PausedEvent ''resumeLimit''))
         (doNext ((perform (Log Debug) (perform (Log Debug) (stepOver s)))
            \<lparr>paused := True, desiredState := Paused\<rparr>)) =
       s\<lparr>trace := trace s @ [Log Debug, SendRequest (name s) (ResumeRequest (Some Next)),
              Log Debug, Log Debug, Emit (PausedEvent ''resumeLimit'')]\<rparr>"
    unfolding stepped by (simp add: doNext_def perform_def)
  from handled settled have result: "receiveResponse r (stepOver s) =
       Inr (s\<lparr>trace := trace s @ [Log Debug, SendRequest (name s) (ResumeRequest (Some Next)),
              Log Debug, Log Debug, Emit (PausedEvent ''resumeLimit'')]\<rparr>)"
    by simp
  have sent: "requests (trace (stepOver s)) = requests (trace s) @ [ResumeRequest (Some Next)]"
    unfolding stepped by (simp add: requests_append)
  have after: "trace (stepOver s) =
     trace s @ [Log Debug, SendRequest (name s) (ResumeRequest (Some Next))]"
    "\<not> paused (stepOver s)" "desiredState (stepOver s) = StepOver"
    unfolding stepped by simp_all
  from after sent handled result show ?thesis
    by blast
qed

text \<open>Scenario C of the spec, on the proxy as the constructor leaves it.\<close>

theorem stepOver_then_resumeLimit_witness:
  "requests (trace (stepOver (ThreadActorProxy ''tab1''))) =
     [Attach, Sources, ResumeRequest (Some Next)]
   \<and> \<not> paused (stepOver (ThreadActorProxy ''tab1''))
   \<and> receiveResponse (pausedMessage ''resumeLimit'' []) (stepOver (ThreadActorProxy ''tab1'')) =
       Inr \<lparr>name = ''tab1'', desiredState = Paused, paused = True,
            operationsRunningOnPausedThread = 0, pendingFrameRequests = [],
            queuedEvaluateRequests = [], pendingEvaluateRequest = None, nextPromise = 0,
            trace = [Register, SendRequest ''tab1'' Attach, SendRequest ''tab1'' Sources,
              Log Debug, Log Debug, SendRequest ''tab1'' (ResumeRequest (Some Next)),
              Log Debug, Log Debug, Emit (PausedEvent ''resumeLimit'')]\<rparr>"
proof -
  have fields: "desiredState (ThreadActorProxy ''tab1'') = Paused"
    "paused (ThreadActorProxy ''tab1'')"
    "operationsRunningOnPausedThread (ThreadActorProxy ''tab1'') = 0"
    "queuedEvaluateRequests (ThreadActorProxy ''tab1'') = []"
    "pendingEvaluateRequest (ThreadActorProxy ''tab1'') = None"
    by (simp_all add: ThreadActorProxy_def)
  have shape: "rtype (pausedMessage ''resumeLimit'' []) = Some ''paused''"
    "wtype (rwhy (pausedMessage ''resumeLimit'' [])) = ''resumeLimit''"
    by (simp_all add: pausedMessage_def message_def)
  from stepOver_then_resumeLimit [OF fields shape]
  have scenario:
    "requests (trace (stepOver (ThreadActorProxy ''tab1''))) =
       requests (trace (ThreadActorProxy ''tab1'')) @ [ResumeRequest (Some Next)]"
    "\<not> paused (stepOver (ThreadActorProxy ''tab1''))"
    "receiveResponse (pausedMessage ''resumeLimit'' []) (stepOver (ThreadActorProxy ''tab1'')) =
       Inr ((ThreadActorProxy ''tab1'')\<lparr>trace := trace (ThreadActorProxy ''tab1'')
              @ [Log Debug, SendRequest (name (ThreadActorProxy ''tab1'')) (ResumeRequest (Some Next)),
                 Log Debug, Log Debug, Emit (PausedEvent ''resumeLimit'')]\<rparr>)"
    by blast+
  have start: "(ThreadActorProxy ''tab1'')\<lparr>trace := trace (ThreadActorProxy ''tab1'')
              @ [Log Debug, SendRequest (name (ThreadActorProxy ''tab1'')) (ResumeRequest (Some Next)),
                 Log Debug, Log Debug, Emit (PausedEvent ''resumeLimit'')]\<rparr> =
       \<lparr>name = ''tab1'', desiredState = Paused, paused = True,
            operationsRunningOnPausedThread = 0, pendingFrameRequests = [],
            queuedEvaluateRequests = [], pendingEvaluateRequest = None, nextPromise = 0,
            trace = [Register, SendRequest ''tab1'' Attach, SendRequest ''tab1'' Sources,
              Log Debug, Log Debug, SendRequest ''tab1'' (ResumeRequest (Some Next)),
              Log Debug, Log Debug, Emit (PausedEvent ''resumeLimit'')]\<rparr>"
    "requests (trace (ThreadActorProxy ''tab1'')) = [Attach, Sources]"
    by (simp_all add: ThreadActorProxy_def)
  from scenario show ?thesis
    unfolding start by simp
qed

subsection \<open>The pause that ends an evaluation\<close>

text \<open>
  Claim C9. A \<^verbatim>\<open>paused\<close> message with reason \<^verbatim>\<open>clientEvaluated\<close> makes the handler call
  \<^verbatim>\<open>resolve\<close> of \<^verbatim>\<open>pendingEvaluateRequest\<close>. If that field is \<^verbatim>\<open>null\<close> the call throws
  (after \<^verbatim>\<open>paused\<close> was set, before anything else), and if it is not the handler returns
  normally, having resolved the promise of the active request.
\<close>

theorem clientEvaluated_needs_active_request:
  "rtype r = Some ''paused'' \<Longrightarrow> wtype (rwhy r) = ''clientEvaluated'' \<Longrightarrow>
   (pendingEvaluateRequest s = None \<longrightarrow>
      receiveResponse r s =
        Inl (TypeError, (perform (Log Debug) (perform (Log Debug) s))\<lparr>paused := True\<rparr>))
   \<and> (\<forall>p. pendingEvaluateRequest s = Some p \<longrightarrow>
        (\<exists>s'. receiveResponse r s = Inr s'
           \<and> gripSettlements (trace s') =
               gripSettlements (trace s) @ [ResolveGrip p (frameFinished_return (rwhy r))]))
   \<and> isl (receiveResponse r s) = (pendingEvaluateRequest s = None)"
proof -
  assume shape: "rtype r = Some ''paused''" "wtype (rwhy r) = ''clientEvaluated''"
  have settled: "gripSettlements (trace (doNext t)) = gripSettlements (trace t)"
    if "pendingEvaluateRequest t = None \<longrightarrow> paused t \<or> queuedEvaluateRequests t = [] \<or> 0 < operationsRunningOnPausedThread t" for t
    using that
    by (auto simp add: doNext_def Let_def gripSettlements_append
        split: list.split desired.split)
  have absent: "pendingEvaluateRequest s = None \<longrightarrow>
      receiveResponse r s =
        Inl (TypeError, (perform (Log Debug) (perform (Log Debug) s))\<lparr>paused := True\<rparr>)"
    using shape by (simp add: receiveResponse_def Let_def)
  have present: "\<exists>s'. receiveResponse r s = Inr s'
           \<and> gripSettlements (trace s') =
               gripSettlements (trace s) @ [ResolveGrip p (frameFinished_return (rwhy r))]"
    if "pendingEvaluateRequest s = Some p" for p
    using shape that
    by (simp add: receiveResponse_def Let_def settled gripSettlements_append)
  from absent present show ?thesis
    by (cases "pendingEvaluateRequest s") auto
qed

theorem clientEvaluated_needs_active_request_witness:
  "pendingEvaluateRequest (ThreadActorProxy ''tab1'') = None
   \<and> isl (receiveResponse (pausedMessage ''clientEvaluated'' ''2'') (ThreadActorProxy ''tab1''))
   \<and> pendingEvaluateRequest (evaluate ''1+1'' ''frameX'' (ThreadActorProxy ''tab1'')) = Some 0
   \<and> \<not> isl (receiveResponse (pausedMessage ''clientEvaluated'' ''2'')
         (evaluate ''1+1'' ''frameX'' (ThreadActorProxy ''tab1'')))"
proof -
  have shape: "rtype (pausedMessage ''clientEvaluated'' ''2'') = Some ''paused''"
    "wtype (rwhy (pausedMessage ''clientEvaluated'' ''2'')) = ''clientEvaluated''"
    by (simp_all add: pausedMessage_def message_def)
  have idle: "pendingEvaluateRequest (ThreadActorProxy ''tab1'') = None"
    by (simp add: ThreadActorProxy_def)
  have active: "pendingEvaluateRequest (evaluate ''1+1'' ''frameX'' (ThreadActorProxy ''tab1'')) = Some 0"
    by (simp add: ThreadActorProxy_def evaluate_def doNext_def perform_def Let_def)
  from idle active
    clientEvaluated_needs_active_request [OF shape, of "ThreadActorProxy ''tab1''"]
    clientEvaluated_needs_active_request [OF shape,
      of "evaluate ''1+1'' ''frameX'' (ThreadActorProxy ''tab1'')"]
  show ?thesis
    by simp
qed

subsection \<open>The branch for a running thread is never taken\<close>

lemma runningRejections_append:
  "runningRejections (es @ fs) = runningRejections es @ runningRejections fs"
  by (induction es rule: runningRejections.induct) simp_all

lemma runningRejections_frame_rejections:
  "runningRejections (map (\<lambda>p. RejectFrames p err) ps) = []"
  by (induction ps) simp_all

lemma doNext_anchored:
  "serviceable s \<Longrightarrow> anchored s \<Longrightarrow> anchored (doNext s) \<and> drained (doNext s)"
  by (auto simp add: serviceable_def anchored_def drained_def pausedWhileOperating_def
      doNext_def Let_def runningRejections_append split: list.split desired.split)

lemma anchored_perform:
  "runningRejections [e] = [] \<Longrightarrow> anchored (perform e s) = anchored s"
  by (simp add: anchored_def pausedWhileOperating_def runningRejections_append)

lemma drained_perform: "drained (perform e s) = drained s"
  by (simp add: drained_def)

lemma serviceable_paused: "paused s \<Longrightarrow> serviceable s"
  by (simp add: serviceable_def)

lemma doNext_paused_anchored:
  assumes "anchored s" and that: "runningRejections [e] = []"
  shows "anchored (doNext ((perform e s)\<lparr>paused := True, desiredState := Paused\<rparr>))
       \<and> drained (doNext ((perform e s)\<lparr>paused := True, desiredState := Paused\<rparr>))"
proof (rule doNext_anchored)
  show "serviceable ((perform e s)\<lparr>paused := True, desiredState := Paused\<rparr>)"
    by (simp add: serviceable_def)
  from assms that show "anchored ((perform e s)\<lparr>paused := True, desiredState := Paused\<rparr>)"
    by (simp add: anchored_def pausedWhileOperating_def runningRejections_append)
qed

lemma doNext_resolved_anchored:
  assumes "anchored s" "paused s"
  shows "anchored (doNext ((perform (ResolveGrip p v) s)\<lparr>pendingEvaluateRequest := None\<rparr>))
       \<and> drained (doNext ((perform (ResolveGrip p v) s)\<lparr>pendingEvaluateRequest := None\<rparr>))"
proof (rule doNext_anchored)
  from assms show "serviceable ((perform (ResolveGrip p v) s)\<lparr>pendingEvaluateRequest := None\<rparr>)"
    by (simp add: serviceable_def)
  from assms
  show "anchored ((perform (ResolveGrip p v) s)\<lparr>pendingEvaluateRequest := None\<rparr>)"
    by (simp add: anchored_def pausedWhileOperating_def runningRejections_append)
qed

lemma doNext_desired_anchored:
  assumes "anchored s" "drained s" "desiredState s = Paused"
  shows "anchored (doNext ((perform (Log Debug) s)\<lparr>desiredState := d\<rparr>))
       \<and> drained (doNext ((perform (Log Debug) s)\<lparr>desiredState := d\<rparr>))"
proof (rule doNext_anchored)
  from assms show "serviceable ((perform (Log Debug) s)\<lparr>desiredState := d\<rparr>)"
    by (auto simp add: serviceable_def anchored_def drained_def)
  from assms show "anchored ((perform (Log Debug) s)\<lparr>desiredState := d\<rparr>)"
    by (auto simp add: anchored_def drained_def pausedWhileOperating_def
        runningRejections_append)
qed

lemma receiveResponse_anchored:
  assumes "anchored s" "drained s"
  shows "anchored (afterwards (receiveResponse r s)) \<and> drained (afterwards (receiveResponse r s))"
proof (cases "rtype r = Some ''paused''")
  case True
  have logged: "anchored (perform (Log Debug) s)"
    using assms by (simp add: anchored_perform)
  have forced: "anchored ((perform (Log Debug) (perform (Log Debug) s))\<lparr>paused := True\<rparr>)
      \<and> drained ((perform (Log Debug) (perform (Log Debug) s))\<lparr>paused := True\<rparr>)"
    using assms
    by (simp add: anchored_def drained_def pausedWhileOperating_def runningRejections_append)
  show ?thesis
  proof (cases "pendingEvaluateRequest s")
    case None
    with assms True forced show ?thesis
      by (simp add: receiveResponse_def afterwards_def Let_def anchored_perform
          drained_perform doNext_paused_anchored [OF logged])
  next
    case (Some p)
    from forced have "anchored (doNext
          ((perform (ResolveGrip p v) ((perform (Log Debug) (perform (Log Debug) s))\<lparr>paused := True\<rparr>))
             \<lparr>pendingEvaluateRequest := None\<rparr>))
       \<and> drained (doNext
          ((perform (ResolveGrip p v) ((perform (Log Debug) (perform (Log Debug) s))\<lparr>paused := True\<rparr>))
             \<lparr>pendingEvaluateRequest := None\<rparr>))" for v
      by (simp add: doNext_resolved_anchored)
    with assms True Some forced show ?thesis
      by (simp add: receiveResponse_def afterwards_def Let_def anchored_perform
          drained_perform doNext_paused_anchored [OF logged])
  qed
next
  case False
  with assms show ?thesis
    by (simp add: receiveResponse_def afterwards_def Let_def rejectAll_def resolveOne_def
        anchored_def drained_def pausedWhileOperating_def runningRejections_append
        runningRejections_frame_rejections split: list.split)
qed

lemma step_anchored:
  assumes "anchored s" "drained s"
  shows "anchored (step a s) \<and> drained (step a s)"
proof (cases a)
  case CallInterrupt
  with assms show ?thesis
    by (simp add: interrupt_def Let_def anchored_def drained_def pausedWhileOperating_def
        runningRejections_append)
next
  case CallResume
  with assms show ?thesis
    by (simp add: resume_def Let_def doNext_desired_anchored anchored_perform drained_perform)
next
  case CallStepOver
  with assms show ?thesis
    by (simp add: stepOver_def Let_def doNext_desired_anchored anchored_perform drained_perform)
next
  case CallStepInto
  with assms show ?thesis
    by (simp add: stepInto_def Let_def doNext_desired_anchored anchored_perform drained_perform)
next
  case CallStepOut
  with assms show ?thesis
    by (simp add: stepOut_def Let_def doNext_desired_anchored anchored_perform drained_perform)
next
  case CallFetchStackFrames
  with assms show ?thesis
    by (auto simp add: fetchStackFrames_def Let_def anchored_def drained_def
        pausedWhileOperating_def runningRejections_append)
next
  case (CallEvaluate expr frameActorName)
  show ?thesis
  proof (cases "desiredState s = Paused")
    case True
    have "anchored (doNext (s\<lparr>nextPromise := nextPromise s + 1,
          queuedEvaluateRequests := queuedEvaluateRequests s
            @ [\<lparr>qexpr = expr, qframe = frameActorName, settle = nextPromise s\<rparr>]\<rparr>))
      \<and> drained (doNext (s\<lparr>nextPromise := nextPromise s + 1,
          queuedEvaluateRequests := queuedEvaluateRequests s
            @ [\<lparr>qexpr = expr, qframe = frameActorName, settle = nextPromise s\<rparr>]\<rparr>))"
    proof (rule doNext_anchored)
      from assms True show "serviceable (s\<lparr>nextPromise := nextPromise s + 1,
          queuedEvaluateRequests := queuedEvaluateRequests s
            @ [\<lparr>qexpr = expr, qframe = frameActorName, settle = nextPromise s\<rparr>]\<rparr>)"
        by (simp add: serviceable_def anchored_def)
      from assms show "anchored (s\<lparr>nextPromise := nextPromise s + 1,
          queuedEvaluateRequests := queuedEvaluateRequests s
            @ [\<lparr>qexpr = expr, qframe = frameActorName, settle = nextPromise s\<rparr>]\<rparr>)"
        by (simp add: anchored_def pausedWhileOperating_def)
    qed
    with True CallEvaluate show ?thesis
      by (simp add: evaluate_def Let_def)
  next
    case False
    with assms CallEvaluate show ?thesis
      by (simp add: evaluate_def Let_def anchored_def drained_def pausedWhileOperating_def
          runningRejections_append)
  qed
next
  case CallRunOnPausedThread
  with assms show ?thesis
    by (auto simp add: runOnPausedThread_def Let_def anchored_def drained_def
        pausedWhileOperating_def runningRejections_append)
next
  case OperationFinished
  have "anchored (doNext ((perform (Log Debug) s)
          \<lparr>operationsRunningOnPausedThread := operationsRunningOnPausedThread s - 1\<rparr>))
      \<and> drained (doNext ((perform (Log Debug) s)
          \<lparr>operationsRunningOnPausedThread := operationsRunningOnPausedThread s - 1\<rparr>))"
  proof (rule doNext_anchored)
    from assms show "serviceable ((perform (Log Debug) s)
          \<lparr>operationsRunningOnPausedThread := operationsRunningOnPausedThread s - 1\<rparr>)"
      by (auto simp add: serviceable_def anchored_def drained_def pausedWhileOperating_def
          split: if_splits)
    from assms show "anchored ((perform (Log Debug) s)
          \<lparr>operationsRunningOnPausedThread := operationsRunningOnPausedThread s - 1\<rparr>)"
      by (auto simp add: anchored_def pausedWhileOperating_def runningRejections_append
          split: if_splits)
  qed
  with OperationFinished show ?thesis
    by (simp add: operationFinishedOnPausedThread_def Let_def)
next
  case (Receive r)
  with assms show ?thesis
    by (simp add: receiveResponse_anchored)
qed

lemma run_anchored:
  "anchored s \<Longrightarrow> drained s \<Longrightarrow> anchored (run s as) \<and> drained (run s as)"
  by (induction as arbitrary: s) (simp_all add: step_anchored)





subsection \<open>Evaluations after the thread has exited\<close>

lemma heldSettlements_append:
  "heldSettlements n (es @ fs) = heldSettlements n es @ heldSettlements n fs"
  by (induction n es rule: heldSettlements.induct) simp_all

lemma heldSettlements_frame_rejections:
  "heldSettlements n (map (\<lambda>p. RejectFrames p err) ps) = []"
  by (induction ps) simp_all

lemma doNext_settles_nothing:
  "serviceable s \<Longrightarrow> heldSettlements n (trace (doNext s)) = heldSettlements n (trace s)"
  by (auto simp add: serviceable_def doNext_def Let_def heldSettlements_append
      split: list.split desired.split)

lemma serviceable_desired:
  "drained s \<Longrightarrow> serviceable ((perform (Log Debug) s)\<lparr>desiredState := d\<rparr>)"
  by (auto simp add: serviceable_def drained_def)

lemma serviceable_enqueued:
  "anchored s \<Longrightarrow> desiredState s = Paused \<Longrightarrow>
   serviceable (s\<lparr>nextPromise := n, queuedEvaluateRequests := qs\<rparr>)"
  by (simp add: serviceable_def anchored_def)

lemma serviceable_finished:
  "anchored s \<Longrightarrow> drained s \<Longrightarrow>
   serviceable ((perform (Log Debug) s)
     \<lparr>operationsRunningOnPausedThread := operationsRunningOnPausedThread s - 1\<rparr>)"
  by (auto simp add: serviceable_def anchored_def drained_def pausedWhileOperating_def
      split: if_splits)

lemma step_call_settles_nothing:
  assumes "anchored s" "drained s" "isCall a" "n \<le> nextPromise s"
  shows "heldSettlements n (trace (step a s)) = heldSettlements n (trace s)
    \<and> n \<le> nextPromise (step a s)"
proof (cases a)
  case CallInterrupt
  with assms show ?thesis
    by (simp add: interrupt_def Let_def heldSettlements_append)
next
  case CallResume
  with assms show ?thesis
    by (simp add: resume_def Let_def heldSettlements_append doNext_settles_nothing
        serviceable_desired)
next
  case CallStepOver
  with assms show ?thesis
    by (simp add: stepOver_def Let_def heldSettlements_append doNext_settles_nothing
        serviceable_desired)
next
  case CallStepInto
  with assms show ?thesis
    by (simp add: stepInto_def Let_def heldSettlements_append doNext_settles_nothing
        serviceable_desired)
next
  case CallStepOut
  with assms show ?thesis
    by (simp add: stepOut_def Let_def heldSettlements_append doNext_settles_nothing
        serviceable_desired)
next
  case CallFetchStackFrames
  with assms show ?thesis
    by (simp add: fetchStackFrames_def Let_def heldSettlements_append)
next
  case (CallEvaluate expr frameActorName)
  with assms show ?thesis
    by (simp add: evaluate_def Let_def heldSettlements_append doNext_settles_nothing
        serviceable_enqueued)
next
  case CallRunOnPausedThread
  with assms show ?thesis
    by (simp add: runOnPausedThread_def Let_def heldSettlements_append)
next
  case OperationFinished
  with assms show ?thesis
    by (simp add: operationFinishedOnPausedThread_def Let_def heldSettlements_append
        doNext_settles_nothing serviceable_finished)
next
  case (Receive r)
  with assms show ?thesis
    by simp
qed

lemma run_calls_settle_nothing:
  "anchored s \<Longrightarrow> drained s \<Longrightarrow> list_all isCall as \<Longrightarrow> n \<le> nextPromise s \<Longrightarrow>
   heldSettlements n (trace (run s as)) = heldSettlements n (trace s)"
proof (induction as arbitrary: s)
  case Nil
  then show ?case by simp
next
  case (Cons a as)
  from Cons.prems have call: "isCall a" and calls: "list_all isCall as"
    by simp_all
  from Cons.prems call
  have kept: "heldSettlements n (trace (step a s)) = heldSettlements n (trace s)
      \<and> n \<le> nextPromise (step a s)"
    by (simp add: step_call_settles_nothing)
  from Cons.prems have "anchored (step a s) \<and> drained (step a s)"
    by (simp add: step_anchored)
  with calls kept have "heldSettlements n (trace (run (step a s) as)) =
      heldSettlements n (trace (step a s))"
    by (simp add: Cons.IH)
  with kept show ?case
    by simp
qed

text \<open>
  After the thread has exited, as long as no further message is handled, no call of a
  public method and no completion callback settles an evaluate promise that existed
  when the message came: such promises stay pending.
\<close>

lemma evaluations_stay_pending_after_exit:
  assumes "rtype r = Some ''exited''" "rsources r = None" "rframes r = None"
    and "list_all isCall calls"
  shows "heldSettlements (nextPromise (run (ThreadActorProxy nm) as))
      (trace (run (afterwards (receiveResponse r (run (ThreadActorProxy nm) as))) calls)) =
    heldSettlements (nextPromise (run (ThreadActorProxy nm) as))
      (trace (run (ThreadActorProxy nm) as))"
proof -
  have "anchored (ThreadActorProxy nm)" "drained (ThreadActorProxy nm)"
    by (simp_all add: anchored_def drained_def pausedWhileOperating_def ThreadActorProxy_def)
  then have reached: "anchored (run (ThreadActorProxy nm) as) \<and> drained (run (ThreadActorProxy nm) as)"
    by (rule run_anchored)
  then have exited: "anchored (afterwards (receiveResponse r (run (ThreadActorProxy nm) as)))
      \<and> drained (afterwards (receiveResponse r (run (ThreadActorProxy nm) as)))"
    by (simp add: receiveResponse_anchored)
  have same: "nextPromise (afterwards (receiveResponse r (run (ThreadActorProxy nm) as))) =
      nextPromise (run (ThreadActorProxy nm) as)"
    "heldSettlements n (trace (afterwards (receiveResponse r (run (ThreadActorProxy nm) as)))) =
      heldSettlements n (trace (run (ThreadActorProxy nm) as))" for n
    using assms(1-3)
    by (simp_all add: receiveResponse_def rejectAll_def afterwards_def Let_def
        heldSettlements_append heldSettlements_frame_rejections)
  from exited assms(4) same show ?thesis
    by (simp add: run_calls_settle_nothing)
qed

text \<open>
  Claim C10. A message of type \<^verbatim>\<open>exited\<close> leaves \<^verbatim>\<open>queuedEvaluateRequests\<close> and
  \<^verbatim>\<open>pendingEvaluateRequest\<close> as they are and calls neither \<^verbatim>\<open>resolve\<close> nor \<^verbatim>\<open>reject\<close> of
  any evaluate promise: the only promises the handler settles are those of frame
  requests. And the evaluate promises that exist when the message comes, in any state a
  run from the constructor reaches, stay unsettled through every later sequence of
  calls of public methods and completion callbacks.
\<close>

theorem exited_keeps_evaluate_requests:
  "rtype r = Some ''exited'' \<Longrightarrow> rsources r = None \<Longrightarrow> rframes r = None \<Longrightarrow>
   list_all isCall calls \<Longrightarrow>
   queuedEvaluateRequests (afterwards (receiveResponse r s)) = queuedEvaluateRequests s
   \<and> pendingEvaluateRequest (afterwards (receiveResponse r s)) = pendingEvaluateRequest s
   \<and> gripSettlements (trace (afterwards (receiveResponse r s))) = gripSettlements (trace s)
   \<and> heldSettlements (nextPromise (run (ThreadActorProxy nm) as))
        (trace (run (afterwards (receiveResponse r (run (ThreadActorProxy nm) as))) calls)) =
      heldSettlements (nextPromise (run (ThreadActorProxy nm) as))
        (trace (run (ThreadActorProxy nm) as))"
proof -
  assume shape: "rtype r = Some ''exited''" "rsources r = None" "rframes r = None"
    and calls: "list_all isCall calls"
  from shape have handler:
    "queuedEvaluateRequests (afterwards (receiveResponse r s)) = queuedEvaluateRequests s
     \<and> pendingEvaluateRequest (afterwards (receiveResponse r s)) = pendingEvaluateRequest s
     \<and> gripSettlements (trace (afterwards (receiveResponse r s))) = gripSettlements (trace s)"
    by (simp add: receiveResponse_exited afterwards_def gripSettlements_append
        gripSettlements_frame_rejections)
  from shape calls have later:
    "heldSettlements (nextPromise (run (ThreadActorProxy nm) as))
        (trace (run (afterwards (receiveResponse r (run (ThreadActorProxy nm) as))) calls)) =
      heldSettlements (nextPromise (run (ThreadActorProxy nm) as))
        (trace (run (ThreadActorProxy nm) as))"
    by (rule evaluations_stay_pending_after_exit)
  from handler later show ?thesis
    by blast
qed

text \<open>
  One evaluate request active, one queued and one frame request outstanding when the
  thread exits: only the frame request is rejected. Of what is called afterwards, the
  new evaluate request is rejected at once; the two old ones are left pending.
\<close>

theorem exited_keeps_evaluate_requests_witness:
  "queuedEvaluateRequests (afterwards (receiveResponse (message ''exited'')
      (run (ThreadActorProxy ''tab1'')
        [CallFetchStackFrames, CallEvaluate ''1+1'' ''frameX'', CallEvaluate ''2+2'' ''frameX'']))) =
     [\<lparr>qexpr = ''2+2'', qframe = ''frameX'', settle = 2\<rparr>]
   \<and> pendingEvaluateRequest (afterwards (receiveResponse (message ''exited'')
      (run (ThreadActorProxy ''tab1'')
        [CallFetchStackFrames, CallEvaluate ''1+1'' ''frameX'', CallEvaluate ''2+2'' ''frameX'']))) =
     Some 1
   \<and> gripSettlements (trace (afterwards (receiveResponse (message ''exited'')
      (run (ThreadActorProxy ''tab1'')
        [CallFetchStackFrames, CallEvaluate ''1+1'' ''frameX'', CallEvaluate ''2+2'' ''frameX''])))) = []
   \<and> list_all isCall [CallResume, CallEvaluate ''3+3'' ''frameX'', OperationFinished]
   \<and> heldSettlements 3 (trace (run (afterwards (receiveResponse (message ''exited'')
      (run (ThreadActorProxy ''tab1'')
        [CallFetchStackFrames, CallEvaluate ''1+1'' ''frameX'', CallEvaluate ''2+2'' ''frameX''])))
        [CallResume, CallEvaluate ''3+3'' ''frameX'', OperationFinished])) = []"
proof -
  have shape: "rtype (message ''exited'') = Some ''exited''"
    "rsources (message ''exited'') = None" "rframes (message ''exited'') = None"
    by (simp_all add: message_def)
  have calls: "list_all isCall [CallResume, CallEvaluate ''3+3'' ''frameX'', OperationFinished]"
    by simp
  have before: "run (ThreadActorProxy ''tab1'')
        [CallFetchStackFrames, CallEvaluate ''1+1'' ''frameX'', CallEvaluate ''2+2'' ''frameX''] =
     \<lparr>name = ''tab1'', desiredState = Paused, paused = False,
      operationsRunningOnPausedThread = 0, pendingFrameRequests = [0],
      queuedEvaluateRequests = [\<lparr>qexpr = ''2+2'', qframe = ''frameX'', settle = 2\<rparr>],
      pendingEvaluateRequest = Some 1, nextPromise = 3,
      trace = [Register, SendRequest ''tab1'' Attach, SendRequest ''tab1'' Sources, Log Debug,
        Log Debug, SendRequest ''tab1'' Frames,
        SendRequest ''tab1'' (ClientEvaluate ''1+1'' ''frameX'')]\<rparr>"
    by (simp add: ThreadActorProxy_def method_defs)
  have settled: "heldSettlements 3 (trace (run (ThreadActorProxy ''tab1'')
        [CallFetchStackFrames, CallEvaluate ''1+1'' ''frameX'', CallEvaluate ''2+2'' ''frameX''])) = []"
    "gripSettlements (trace (run (ThreadActorProxy ''tab1'')
        [CallFetchStackFrames, CallEvaluate ''1+1'' ''frameX'', CallEvaluate ''2+2'' ''frameX''])) = []"
    "queuedEvaluateRequests (run (ThreadActorProxy ''tab1'')
        [CallFetchStackFrames, CallEvaluate ''1+1'' ''frameX'', CallEvaluate ''2+2'' ''frameX'']) =
       [\<lparr>qexpr = ''2+2'', qframe = ''frameX'', settle = 2\<rparr>]"
    "pendingEvaluateRequest (run (ThreadActorProxy ''tab1'')
        [CallFetchStackFrames, CallEvaluate ''1+1'' ''frameX'', CallEvaluate ''2+2'' ''frameX'']) =
       Some 1"
    "nextPromise (run (ThreadActorProxy ''tab1'')
        [CallFetchStackFrames, CallEvaluate ''1+1'' ''frameX'', CallEvaluate ''2+2'' ''frameX'']) = 3"
    unfolding before by simp_all
  from calls settled exited_keeps_evaluate_requests [OF shape calls,
      of "run (ThreadActorProxy ''tab1'')
        [CallFetchStackFrames, CallEvaluate ''1+1'' ''frameX'', CallEvaluate ''2+2'' ''frameX'']"
      "''tab1''"
      "[CallFetchStackFrames, CallEvaluate ''1+1'' ''frameX'', CallEvaluate ''2+2'' ''frameX'']"]
  show ?thesis
    by simp
qed

lemma later_calls_after_exit:
  "gripSettlements (trace (run (afterwards (receiveResponse (message ''exited'')
      (run (ThreadActorProxy ''tab1'')
        [CallFetchStackFrames, CallEvaluate ''1+1'' ''frameX'', CallEvaluate ''2+2'' ''frameX''])))
        [CallResume, CallEvaluate ''3+3'' ''frameX'', OperationFinished])) =
     [RejectGrip 3 ''not paused'']"
  by (simp add: state_defs method_defs)

end
